theory Spec2Isabelle
  imports Complex_Main
begin

section \<open>Numbers and library functions of the embedding\<close>

text \<open>
  Python integers are \<open>int\<close>. Python floats (the fall time, the velocity, the rotation
  angle, the spawn distance and the measured frame rate) are exact rationals \<open>rat\<close>:
  every branch of the program compares them with integer constants or clamps them
  with \<open>min\<close>/\<open>max\<close>, and the embedding keeps these comparisons as they are written.

  \<open>py_round\<close> is Python 3's one-argument \<open>round\<close>: to the nearest integer, a tie to the
  even neighbour.
\<close>

definition py_round :: "rat \<Rightarrow> int" where
  "py_round x =
     (let f = \<lfloor>x\<rfloor>; d = x - of_int f
      in if d < 1 / 2 then f
         else if 1 / 2 < d then f + 1
         else if even f then f else f + 1)"

text \<open>
  The \<open>random\<close> module is a deterministic stream of raw numbers \<open>R 0, R 1, ...\<close> that is
  not known; the game state counts how many have been consumed. \<open>randint a b\<close> returns
  an integer of \<open>[a, b]\<close>, and every integer of the range is the image of some raw number
  (the ranges of the program are never empty: \<open>top_pipe_height_range\<close> below).
  \<open>random.choices(population, weights)[0]\<close> returns one element of the population; all
  three weights of the program are positive, so every element can be returned.
\<close>

definition randint :: "int \<Rightarrow> int \<Rightarrow> nat \<Rightarrow> int" where
  "randint a b r = a + int r mod (b - a + 1)"

definition choices :: "int list \<Rightarrow> nat \<Rightarrow> int" where
  "choices population r = population ! (r mod length population)"

subsection \<open>pygame.Rect\<close>

record Rect =
  rect_x :: int
  rect_y :: int
  rect_w :: int
  rect_h :: int

definition rect_right :: "Rect \<Rightarrow> int" where
  "rect_right r = rect_x r + rect_w r"

definition rect_bottom :: "Rect \<Rightarrow> int" where
  "rect_bottom r = rect_y r + rect_h r"

definition rect_center :: "Rect \<Rightarrow> int \<times> int" where
  "rect_center r = (rect_x r + rect_w r div 2, rect_y r + rect_h r div 2)"

definition move_ip :: "int \<Rightarrow> int \<Rightarrow> Rect \<Rightarrow> Rect" where
  "move_ip dx dy r = r\<lparr>rect_x := rect_x r + dx, rect_y := rect_y r + dy\<rparr>"

text \<open>\<open>image.get_rect(center=c)\<close>: a rectangle of the image's size, centred at \<open>c\<close>.\<close>

definition get_rect_center :: "int \<times> int \<Rightarrow> int \<times> int \<Rightarrow> Rect" where
  "get_rect_center sz c =
     \<lparr>rect_x = fst c - fst sz div 2, rect_y = snd c - snd sz div 2,
      rect_w = fst sz, rect_h = snd sz\<rparr>"

text \<open>\<open>Rect.clamp_ip\<close>: move the rectangle inside the argument; centre it on an axis
  where it is too large to fit.\<close>

definition clamp_axis :: "int \<Rightarrow> int \<Rightarrow> int \<Rightarrow> int \<Rightarrow> int" where
  "clamp_axis x w ax aw =
     (if w \<ge> aw then ax + aw div 2 - w div 2
      else if x < ax then ax
      else if x + w > ax + aw then ax + aw - w
      else x)"

definition clamp_ip :: "Rect \<Rightarrow> Rect \<Rightarrow> Rect" where
  "clamp_ip r a =
     r\<lparr>rect_x := clamp_axis (rect_x r) (rect_w r) (rect_x a) (rect_w a),
       rect_y := clamp_axis (rect_y r) (rect_h r) (rect_y a) (rect_h a)\<rparr>"

section \<open>Configuration\<close>

text \<open>
  The attributes that \<open>__init__\<close> and \<open>setup_game\<close> set once and nothing changes
  afterwards are constants. The images are not part of the repository: their sizes
  are the fields of \<open>assets\<close>, a parameter of the functions that read them.
\<close>

record assets =
  head_image_size :: "int \<times> int"           \<comment> \<open>images/pipe_head.png\<close>
  static_image_size :: "int \<times> int"         \<comment> \<open>images/flappy_bird.png\<close>
  rotated_image_size :: "rat \<Rightarrow> int \<times> int"   \<comment> \<open>size of \<open>pygame.transform.rotate(static_image, angle)\<close>\<close>
  scoreboard_size :: "int \<times> int"           \<comment> \<open>images/scoreboard.png\<close>

definition SCREEN_WIDTH :: int where "SCREEN_WIDTH = 1200"
definition SCREEN_HEIGHT :: int where "SCREEN_HEIGHT = 900"
definition max_fps :: int where "max_fps = 120"
definition K_f :: int where "K_f = 102"

definition gravity :: rat where "gravity = 14"
definition jump_vel :: rat where "jump_vel = - (51 / 10)"
definition min_rotation :: rat where "min_rotation = - 15"
definition max_rotation :: rat where "max_rotation = 90"
definition y_boundary_offset :: int where "y_boundary_offset = 15"

definition static_game_speed :: int where "static_game_speed = 2"
definition game_fps :: int where "game_fps = 120"
definition ground_image_height :: int where "ground_image_height = 100"
definition game_height :: int where "game_height = SCREEN_HEIGHT - ground_image_height"
definition y_boundary :: int where "y_boundary = game_height"
definition pipe_gap_width :: int where "pipe_gap_width = 200"
definition min_pipe_height :: int where "min_pipe_height = 70"
definition player_starting_pos :: "int \<times> int" where "player_starting_pos = (100, 400)"
definition player_max_idle_pos_y :: int where "player_max_idle_pos_y = 50"
definition player_min_idle_pos_y :: int where "player_min_idle_pos_y = 50"
definition pipe_height_offsets :: "int list" where "pipe_height_offsets = [150, 300, 450]"
definition far_pipe_h_offset :: "int list" where
  "far_pipe_h_offset = map (\<lambda>x. x + min_pipe_height + pipe_gap_width) pipe_height_offsets"
definition short_pipe_h_offset :: "int list" where
  "short_pipe_h_offset = map (\<lambda>x. x + min_pipe_height) pipe_height_offsets"
definition score_increase :: int where "score_increase = 1"
definition spawning_dist_floor :: rat where "spawning_dist_floor = 375"
definition spawning_dist_step :: rat where "spawning_dist_step = 225225225 / 1000000000"

section \<open>Player\<close>

record Player =
  rect :: Rect
  time :: rat                 \<comment> \<open>\<open>self.time\<close>\<close>
  rotation :: rat
  tick_started :: "int option"     \<comment> \<open>\<open>None\<close> or a reading of \<open>pygame.time.get_ticks()\<close>\<close>
  disable_jumping :: bool

definition Player_init :: "assets \<Rightarrow> Player" where
  "Player_init A =
     \<lparr>rect = \<lparr>rect_x = 0, rect_y = 0,
              rect_w = fst (static_image_size A), rect_h = snd (static_image_size A)\<rparr>,
      time = 0, rotation = 1, tick_started = None, disable_jumping = False\<rparr>"

definition jump :: "int \<Rightarrow> Player \<Rightarrow> Player" where
  "jump now p = p\<lparr>tick_started := Some now\<rparr>"

definition vel_of :: "Player \<Rightarrow> rat" where
  "vel_of p = gravity * time p + jump_vel"

text \<open>The image is replaced by the rotated blueprint and the rectangle takes the new
  image's size around the old centre.\<close>

definition rotate_image :: "assets \<Rightarrow> Player \<Rightarrow> Player" where
  "rotate_image A p =
     p\<lparr>rect := get_rect_center (rotated_image_size A (- rotation p)) (rect_center (rect p))\<rparr>"

text \<open>\<open>impose_gravity\<close> reads the clock once (\<open>now\<close>). With \<open>tick_started = None\<close> the
  subtraction raises \<open>TypeError\<close>: the result is \<open>None\<close>.\<close>

definition impose_gravity :: "assets \<Rightarrow> int \<Rightarrow> Player \<Rightarrow> Player option" where
  "impose_gravity A now p =
     (case tick_started p of
        None \<Rightarrow> None
      | Some started \<Rightarrow>
          (let vel = vel_of p;
               p1 = p\<lparr>rect := move_ip 0 \<lceil>vel\<rceil> (rect p),
                      time := of_int (now - started) / 1000\<rparr>
           in Some
             (if \<lceil>vel\<rceil> > 0 then
                (if rotation p1 < max_rotation
                 then rotate_image A
                        (p1\<lparr>rotation := min max_rotation (rotation p1 + of_int \<lceil>vel\<rceil> / (5 / 2))\<rparr>)
                 else p1)
              else
                (if rotation p1 > min_rotation
                 then rotate_image A
                        (p1\<lparr>rotation := max min_rotation (rotation p1 - of_int \<bar>\<lceil>vel * 2\<rceil>\<bar>)\<rparr>)
                 else p1))))"

definition reset :: "int \<times> int \<Rightarrow> Player \<Rightarrow> Player" where
  "reset topleft p =
     p\<lparr>tick_started := None, time := 0, rotation := 1, disable_jumping := False,
       rect := (rect p)\<lparr>rect_x := fst topleft, rect_y := snd topleft\<rparr>\<rparr>"

section \<open>Obstacles\<close>

record PipeObstacle =
  pipe_rect :: Rect
  serial_num :: int

text \<open>\<open>change_height\<close> scales the body so that body and head together have the given
  height, never less than the head alone; the \<open>image\<close> setter makes \<open>rect\<close> the new
  image's rectangle at the origin.\<close>

definition change_height :: "assets \<Rightarrow> int \<Rightarrow> PipeObstacle \<Rightarrow> PipeObstacle" where
  "change_height A height ob =
     (let height = max (snd (head_image_size A)) height;
          body_image_height = height - snd (head_image_size A)
      in ob\<lparr>pipe_rect := \<lparr>rect_x = 0, rect_y = 0, rect_w = fst (head_image_size A),
                           rect_h = body_image_height + snd (head_image_size A)\<rparr>\<rparr>)"

definition PipeObstacle_init :: PipeObstacle where
  "PipeObstacle_init = \<lparr>pipe_rect = \<lparr>rect_x = 0, rect_y = 0, rect_w = 0, rect_h = 0\<rparr>, serial_num = 0\<rparr>"

definition PipeObstacle_move :: "int \<Rightarrow> PipeObstacle \<Rightarrow> PipeObstacle" where
  "PipeObstacle_move distance ob = ob\<lparr>pipe_rect := move_ip (- distance) 0 (pipe_rect ob)\<rparr>"

text \<open>A pipe whose right edge has left the screen is killed: removed from the group.\<close>

definition killed :: "PipeObstacle \<Rightarrow> bool" where
  "killed ob = (rect_right (pipe_rect ob) \<le> 0)"

text \<open>The ground band: its rectangle stays at \<open>(0, game_height)\<close>; \<open>moving_image_rect\<close>,
  as wide as the screen, scrolls and wraps.\<close>

record GroundObstacle =
  moving_image_rect :: Rect

definition GroundObstacle_move :: "int \<Rightarrow> GroundObstacle \<Rightarrow> GroundObstacle" where
  "GroundObstacle_move distance gr =
     (let r = move_ip (- distance) 0 (moving_image_rect gr)
      in gr\<lparr>moving_image_rect := (if rect_right r < 0 then r\<lparr>rect_x := rect_right r\<rparr> else r)\<rparr>)"

section \<open>Events and the button\<close>

text \<open>
  The events of \<open>pygame.event.get()\<close>. A button's hit test
  (\<open>rect.collidepoint(mouse_pos) and mask.get_at(mouse_pos_in_mask)\<close>) reads the mouse
  and the mask of an image, both outside the repository: a mouse event carries the
  outcome of the test for the start button and for the restart button, whatever
  it is. The theorems below hold for every outcome; a test in which \<open>get_at\<close> is
  asked for a pixel outside the mask raises in pygame and has no outcome.
\<close>

datatype event =
    QUIT
  | KEYDOWN int
  | MOUSEBUTTONDOWN int bool bool
  | MOUSEBUTTONUP bool bool
  | ADD_PIPE
  | OTHER

section \<open>GameManager\<close>

record Game =
  game_speed :: int
  pipe_spawning_dist :: rat
  player :: Player
  ground :: GroundObstacle
  pipes :: "PipeObstacle list"          \<comment> \<open>\<open>obstacles\<close> without the ground, in the group's order\<close>
  previous_pipe_serial :: int
  current_pipe_serial :: int
  player_idle_vel :: int
  game_started :: bool
  game_ended :: bool
  last_pipe_gap_pos :: int
  distance_from_last_pipe :: int
  score :: int
  best_score :: int
  final_score_txt :: int                \<comment> \<open>the number rendered on the scoreboard\<close>
  best_score_txt :: int
  scoreboard_rect_y :: int
  starting_screen_button_pressed :: bool
  restart_game_button_pressed :: bool
  random_pos :: nat                     \<comment> \<open>raw random numbers consumed so far\<close>

text \<open>\<open>__init__\<close>; the rectangle of the ground's image is set by \<open>setup_game\<close>, which
  scales the image to the screen's width.\<close>

definition GameManager_init :: "assets \<Rightarrow> Game" where
  "GameManager_init A =
     \<lparr>game_speed = static_game_speed,
      pipe_spawning_dist = 600,
      player = Player_init A,
      ground = \<lparr>moving_image_rect = \<lparr>rect_x = 0, rect_y = 0, rect_w = 0, rect_h = 0\<rparr>\<rparr>,
      pipes = [],
      previous_pipe_serial = 0,
      current_pipe_serial = 0,
      player_idle_vel = 1,
      game_started = False,
      game_ended = False,
      last_pipe_gap_pos = 0,
      distance_from_last_pipe = 0,
      score = 0,
      best_score = 0,
      final_score_txt = 0,
      best_score_txt = 0,
      scoreboard_rect_y = 0,
      starting_screen_button_pressed = False,
      restart_game_button_pressed = False,
      random_pos = 0\<rparr>"

definition setup_game :: "Game \<Rightarrow> Game" where
  "setup_game g =
     g\<lparr>ground := \<lparr>moving_image_rect =
                     \<lparr>rect_x = 0, rect_y = 0, rect_w = SCREEN_WIDTH, rect_h = ground_image_height\<rparr>\<rparr>,
       player := (player g)\<lparr>rect := (rect (player g))\<lparr>rect_x := fst player_starting_pos,
                                                      rect_y := snd player_starting_pos\<rparr>\<rparr>\<rparr>"

subsection \<open>Spawning\<close>

definition farthest_side :: "Game \<Rightarrow> int" where
  "farthest_side g =
     (if \<bar>game_height - last_pipe_gap_pos g\<bar> \<ge> \<bar>0 - last_pipe_gap_pos g\<bar> then game_height else 0)"

definition top_pipe_height :: "(nat \<Rightarrow> nat) \<Rightarrow> Game \<Rightarrow> int" where
  "top_pipe_height R g =
     (let tier = R (random_pos g); draw = R (random_pos g + 1)
      in if farthest_side g = 0
         then farthest_side g + randint min_pipe_height (choices short_pipe_h_offset tier) draw
         else farthest_side g
                - randint (min_pipe_height + pipe_gap_width) (choices far_pipe_h_offset tier) draw)"

definition new_top_pipe :: "assets \<Rightarrow> int \<Rightarrow> int \<Rightarrow> PipeObstacle" where
  "new_top_pipe A h serial =
     (let ob = change_height A h PipeObstacle_init
      in ob\<lparr>pipe_rect := (pipe_rect ob)\<lparr>rect_x := SCREEN_WIDTH, rect_y := 0\<rparr>,
            serial_num := serial\<rparr>)"

definition new_bottom_pipe :: "assets \<Rightarrow> int \<Rightarrow> int \<Rightarrow> PipeObstacle" where
  "new_bottom_pipe A h serial =
     (let ob = change_height A (game_height - h - pipe_gap_width) PipeObstacle_init
      in ob\<lparr>pipe_rect := (pipe_rect ob)\<lparr>rect_x := SCREEN_WIDTH,
                                          rect_y := game_height - rect_h (pipe_rect ob)\<rparr>,
            serial_num := serial\<rparr>)"

definition add_pipes :: "(nat \<Rightarrow> nat) \<Rightarrow> assets \<Rightarrow> Game \<Rightarrow> Game" where
  "add_pipes R A g =
     (let h = top_pipe_height R g
      in g\<lparr>last_pipe_gap_pos := h,
           pipes := pipes g @ [new_top_pipe A h (previous_pipe_serial g),
                               new_bottom_pipe A h (previous_pipe_serial g)],
           previous_pipe_serial := previous_pipe_serial g + 1,
           random_pos := random_pos g + 2\<rparr>)"

definition loop_pipes :: "(nat \<Rightarrow> nat) \<Rightarrow> assets \<Rightarrow> Game \<Rightarrow> Game" where
  "loop_pipes R A g =
     (if of_int (distance_from_last_pipe g) \<ge> pipe_spawning_dist g \<or> distance_from_last_pipe g = 0
      then add_pipes R A (g\<lparr>distance_from_last_pipe := 0\<rparr>)
      else g)"

subsection \<open>Moving the obstacles and scoring\<close>

definition pass_pipe :: "Game \<Rightarrow> Game" where
  "pass_pipe g =
     (let g1 = g\<lparr>current_pipe_serial := current_pipe_serial g + 1,
                 score := score g + score_increase\<rparr>
      in if pipe_spawning_dist g1 > spawning_dist_floor
         then g1\<lparr>pipe_spawning_dist := pipe_spawning_dist g1 - spawning_dist_step\<rparr>
         else g1)"

text \<open>The test of the pipe that has just moved (lines 329--335).\<close>

definition check_passed :: "PipeObstacle \<Rightarrow> Game \<Rightarrow> Game" where
  "check_passed ob g =
     (if serial_num ob = current_pipe_serial g
         \<and> rect_x (rect (player g)) > rect_x (pipe_rect ob)
      then pass_pipe g else g)"

text \<open>The loop of \<open>move_obstacles\<close> over the pipes of the group as it was when the loop
  began; the first component is the pipes that were not killed.\<close>

fun move_pipes :: "PipeObstacle list \<Rightarrow> Game \<Rightarrow> PipeObstacle list \<times> Game" where
  "move_pipes [] g = ([], g)"
| "move_pipes (ob # obs) g =
     (let ob1 = PipeObstacle_move (game_speed g) ob;
          g1 = check_passed ob1 g;
          (rest, g2) = move_pipes obs g1
      in (if killed ob1 then rest else ob1 # rest, g2))"

definition move_obstacles :: "Game \<Rightarrow> Game" where
  "move_obstacles g =
     (let g0 = g\<lparr>ground := GroundObstacle_move (game_speed g) (ground g)\<rparr>;
          (survivors, g1) = move_pipes (pipes g0) g0
      in g1\<lparr>pipes := survivors\<rparr>)"

subsection \<open>Buttons, start and restart\<close>

definition initiate_game :: "Game \<Rightarrow> Game" where
  "initiate_game g = g\<lparr>game_started := True, distance_from_last_pipe := 0\<rparr>"

definition restart_game :: "Game \<Rightarrow> Game" where
  "restart_game g =
     g\<lparr>game_ended := False,
       game_started := False,
       player := reset player_starting_pos (player g),
       score := 0,
       previous_pipe_serial := 0,
       current_pipe_serial := 0,
       pipes := []\<rparr>"

datatype button = starting_screen_button | restart_game_button

fun pressed :: "button \<Rightarrow> Game \<Rightarrow> bool" where
  "pressed starting_screen_button g = starting_screen_button_pressed g"
| "pressed restart_game_button g = restart_game_button_pressed g"

fun set_pressed :: "button \<Rightarrow> bool \<Rightarrow> Game \<Rightarrow> Game" where
  "set_pressed starting_screen_button v g = g\<lparr>starting_screen_button_pressed := v\<rparr>"
| "set_pressed restart_game_button v g = g\<lparr>restart_game_button_pressed := v\<rparr>"

fun action :: "button \<Rightarrow> Game \<Rightarrow> Game" where
  "action starting_screen_button g = initiate_game g"
| "action restart_game_button g = restart_game g"

fun hit :: "button \<Rightarrow> bool \<Rightarrow> bool \<Rightarrow> bool" where
  "hit starting_screen_button on_start on_restart = on_start"
| "hit restart_game_button on_start on_restart = on_restart"

text \<open>One turn of the loop of \<open>Button.update\<close>. The button's own rectangle (moved down
  while pressed) only feeds the hit test and the blit.\<close>

fun Button_event :: "button \<Rightarrow> event \<Rightarrow> Game \<Rightarrow> Game" where
  "Button_event b (MOUSEBUTTONDOWN n on_start on_restart) g =
     (if n = 1 then (if hit b on_start on_restart then set_pressed b True g else g) else g)"
| "Button_event b (MOUSEBUTTONUP on_start on_restart) g =
     (if pressed b g
      then (let g1 = set_pressed b False g
            in if hit b on_start on_restart then action b g1 else g1)
      else g)"
| "Button_event b e g = g"

definition Button_update :: "button \<Rightarrow> event list \<Rightarrow> Game \<Rightarrow> Game" where
  "Button_update b evs g = fold (Button_event b) evs g"

subsection \<open>Game over\<close>

text \<open>The block guarded by \<open>if not self.game_ended\<close> (``fire only once''). The positions
  of the title and the horizontal coordinates of the overlay only feed the blits.\<close>

definition game_over_entry :: "Game \<Rightarrow> Game" where
  "game_over_entry g =
     (let best = (if score g > best_score g then score g else best_score g)
      in g\<lparr>best_score := best, final_score_txt := score g, best_score_txt := best,
           scoreboard_rect_y := SCREEN_HEIGHT\<rparr>)"

definition initiate_game_over_screen :: "assets \<Rightarrow> event list \<Rightarrow> Game \<Rightarrow> Game" where
  "initiate_game_over_screen A evs g =
     (let g1 = (if \<not> game_ended g then game_over_entry g else g);
          g2 = g1\<lparr>game_ended := True, player := (player g1)\<lparr>disable_jumping := True\<rparr>\<rparr>;
          g3 = (if scoreboard_rect_y g2 + snd (scoreboard_size A) div 2 > 450
                then g2\<lparr>scoreboard_rect_y := scoreboard_rect_y g2 - 20\<rparr> else g2)
      in Button_update restart_game_button evs g3)"

subsection \<open>One tick\<close>

text \<open>
  What a frame reads from outside: the new events, the readings of
  \<open>pygame.time.get_ticks()\<close> (in \<open>Player.update\<close>, in \<open>jump\<close> and in \<open>impose_gravity\<close>),
  the outcome of \<open>pygame.sprite.spritecollide\<close> on the masks, and \<open>clock.get_fps()\<close>.
\<close>

record frame_in =
  events :: "event list"
  ticks_update :: int
  ticks_jump :: int
  ticks_gravity :: int
  collides :: bool
  fps :: rat

fun Player_event :: "int \<Rightarrow> event \<Rightarrow> Player \<Rightarrow> Player" where
  "Player_event now (MOUSEBUTTONDOWN n on_start on_restart) p =
     (if n = 1 \<and> \<not> disable_jumping p then jump now p else p)"
| "Player_event now e p = p"

definition Player_update :: "assets \<Rightarrow> frame_in \<Rightarrow> event list \<Rightarrow> Player \<Rightarrow> Player option" where
  "Player_update A i evs p =
     (let p1 = (if tick_started p = None then p\<lparr>tick_started := Some (ticks_update i)\<rparr> else p);
          p2 = fold (Player_event (ticks_jump i)) evs p1
      in case impose_gravity A (ticks_gravity i) p2 of
           None \<Rightarrow> None
         | Some p3 \<Rightarrow>
             Some (p3\<lparr>rect := clamp_ip (rect p3)
                        \<lparr>rect_x = 0, rect_y = 0, rect_w = 1200,
                         rect_h = y_boundary + y_boundary_offset\<rparr>\<rparr>))"

definition idle_animation :: "Game \<Rightarrow> Game" where
  "idle_animation g =
     (let g1 = g\<lparr>player := (player g)\<lparr>rect := move_ip 0 (player_idle_vel g) (rect (player g))\<rparr>\<rparr>
      in if rect_y (rect (player g1)) \<ge> snd player_starting_pos + player_max_idle_pos_y
         then g1\<lparr>player_idle_vel := - player_idle_vel g1\<rparr>
         else if rect_y (rect (player g1)) \<le> snd player_starting_pos - player_min_idle_pos_y
         then g1\<lparr>player_idle_vel := \<bar>player_idle_vel g1\<bar>\<rparr>
         else g1)"

text \<open>The state in which \<open>update\<close> reaches its third conditional (line 303): after the
  obstacles have moved, or the game-over screen was shown, and after \<open>player.update\<close>.
  \<open>Player.update\<close> has set \<open>tick_started\<close> before \<open>impose_gravity\<close> reads it, so its
  \<open>None\<close> (the \<open>TypeError\<close>) does not arise (\<open>Player_update_Some\<close> below); the branch
  leaves the game as it is.\<close>

definition update_head :: "assets \<Rightarrow> frame_in \<Rightarrow> event list \<Rightarrow> Game \<Rightarrow> Game" where
  "update_head A i evs g =
     (let g1 = (if game_ended g then initiate_game_over_screen A evs g else move_obstacles g)
      in if game_started g1
         then (case Player_update A i evs (player g1) of
                 Some p \<Rightarrow> g1\<lparr>player := p\<rparr>
               | None \<Rightarrow> g1)
         else g1)"

definition update :: "(nat \<Rightarrow> nat) \<Rightarrow> assets \<Rightarrow> frame_in \<Rightarrow> event list \<Rightarrow> Game \<Rightarrow> Game" where
  "update R A i evs g =
     (let g2 = update_head A i evs g
      in if game_started g2 \<and> \<not> game_ended g2 then
           (let g3 = loop_pipes R A g2;
                g4 = g3\<lparr>distance_from_last_pipe := distance_from_last_pipe g3 + game_speed g3\<rparr>
            in if collides i then initiate_game_over_screen A evs g4 else g4)
         else if \<not> game_started g2 then
           idle_animation (Button_update starting_screen_button evs g2)
         else g2)"

section \<open>The main loop\<close>

record App =
  game :: Game
  running :: bool
  posted :: "event list"     \<comment> \<open>events posted with \<open>pygame.event.post\<close>, not yet fetched\<close>

definition App_init :: "assets \<Rightarrow> App" where
  "App_init A = \<lparr>game = setup_game (GameManager_init A), running = True, posted = []\<rparr>"

definition handle_event :: "(nat \<Rightarrow> nat) \<Rightarrow> assets \<Rightarrow> event \<Rightarrow> App \<Rightarrow> App" where
  "handle_event R A e a =
     (let a1 = (if e = QUIT then a\<lparr>running := False\<rparr> else a);
          a2 = (case e of
                  KEYDOWN k \<Rightarrow> (if k = K_f then a1\<lparr>posted := posted a1 @ [ADD_PIPE]\<rparr> else a1)
                | _ \<Rightarrow> a1)
      in if e = ADD_PIPE \<and> game_started (game a2)
         then a2\<lparr>game := add_pipes R A (game a2)\<rparr> else a2)"

text \<open>The assignment of lines 41--42; the conditional expression is the whole argument
  of \<open>round\<close>.\<close>

definition new_game_speed :: "rat \<Rightarrow> int" where
  "new_game_speed f =
     py_round (if f > 0 then of_int game_fps / min f (of_int game_fps) else of_int game_fps)
       * static_game_speed"

text \<open>One turn of \<open>while running\<close>: \<open>pygame.event.get()\<close> returns the posted events and
  the new ones.\<close>

definition frame :: "(nat \<Rightarrow> nat) \<Rightarrow> assets \<Rightarrow> frame_in \<Rightarrow> App \<Rightarrow> App" where
  "frame R A i a =
     (let evs = posted a @ events i;
          a1 = fold (handle_event R A) evs (a\<lparr>posted := []\<rparr>);
          g = update R A i evs (game a1)
      in a1\<lparr>game := g\<lparr>game_speed := new_game_speed (fps i)\<rparr>\<rparr>)"

fun run :: "(nat \<Rightarrow> nat) \<Rightarrow> assets \<Rightarrow> frame_in list \<Rightarrow> App \<Rightarrow> App" where
  "run R A [] a = a"
| "run R A (i # is) a = (if running a then run R A is (frame R A i a) else a)"

section \<open>Example inputs\<close>

text \<open>Concrete images, a concrete random stream, concrete frames and concrete states,
  used to instantiate the theorems below.\<close>

definition example_assets :: assets where
  "example_assets =
     \<lparr>head_image_size = (104, 48), static_image_size = (68, 48),
      rotated_image_size = (\<lambda>angle. (68, 48)), scoreboard_size = (452, 232)\<rparr>"

definition example_random :: "nat \<Rightarrow> nat" where
  "example_random n = n"

definition example_game :: Game where
  "example_game = setup_game (GameManager_init example_assets)"

text \<open>A frame at clock reading \<open>t\<close> with the target frame rate measured, and one of
  the first frames, for which \<open>clock.get_fps()\<close> is still 0.\<close>

definition example_frame :: "int \<Rightarrow> event list \<Rightarrow> frame_in" where
  "example_frame t evs =
     \<lparr>events = evs, ticks_update = t, ticks_jump = t, ticks_gravity = t,
      collides = False, fps = 120\<rparr>"

definition first_frame :: "int \<Rightarrow> event list \<Rightarrow> frame_in" where
  "first_frame t evs = (example_frame t evs)\<lparr>fps := 0\<rparr>"

text \<open>Pressing and releasing the mouse over the start button.\<close>

definition start_click :: "event list" where
  "start_click = [MOUSEBUTTONDOWN 1 True False, MOUSEBUTTONUP True False]"

text \<open>A session of eight frames: the game is started, the first pair is spawned and
  passed, and the avatar collides in the last frame.\<close>

definition passing_run :: "frame_in list" where
  "passing_run =
     [first_frame 0 start_click, first_frame 8 [], first_frame 16 [], first_frame 24 [],
      first_frame 32 [], first_frame 40 [], first_frame 48 [],
      (first_frame 56 [])\<lparr>collides := True\<rparr>]"

definition game_over_example :: Game where
  "game_over_example =
     game (run example_random example_assets passing_run (App_init example_assets))"

text \<open>A started game, the frame in which the avatar collides while the \<open>f\<close> key is
  pressed, and the state after it.\<close>

definition playing_app :: App where
  "playing_app = run example_random example_assets
                   [first_frame 0 start_click, first_frame 8 []]
                   (App_init example_assets)"

definition crash_frame :: frame_in where
  "crash_frame = (first_frame 16 [KEYDOWN K_f])\<lparr>collides := True\<rparr>"

definition game_over_app :: App where
  "game_over_app = frame example_random example_assets crash_frame playing_app"


text \<open>\<open>n\<close> pairs with consecutive serial numbers at the same \<open>x\<close>, as \<open>n\<close> pending
  \<open>ADD_PIPE\<close> events of one frame spawn them, and a fresh started game in which a
  thousand of them are one step from being passed.\<close>

fun lined_up :: "int \<Rightarrow> int \<Rightarrow> nat \<Rightarrow> PipeObstacle list" where
  "lined_up x serial 0 = []"
| "lined_up x serial (Suc n) =
     \<lparr>pipe_rect = \<lparr>rect_x = x, rect_y = 0, rect_w = 104, rect_h = 300\<rparr>, serial_num = serial\<rparr>
     # \<lparr>pipe_rect = \<lparr>rect_x = x, rect_y = 500, rect_w = 104, rect_h = 300\<rparr>, serial_num = serial\<rparr>
     # lined_up x (serial + 1) n"

definition crowded_game :: Game where
  "crowded_game = (initiate_game example_game)\<lparr>pipes := lined_up 101 0 1000,
                                                 previous_pipe_serial := 1000\<rparr>"

section \<open>Notions used in the statements\<close>

text \<open>The three states of the game, read from the two flags.\<close>

datatype phase = StartScreen | Playing | GameOver

definition phase_of :: "Game \<Rightarrow> phase" where
  "phase_of g = (if game_ended g then GameOver else if game_started g then Playing else StartScreen)"

text \<open>The state in which a frame reaches the call of \<open>loop_pipes\<close> (line 304), when
  it does: after the event loop of the main program and the head of \<open>update\<close>.\<close>

definition before_loop_pipes :: "(nat \<Rightarrow> nat) \<Rightarrow> assets \<Rightarrow> frame_in \<Rightarrow> App \<Rightarrow> Game" where
  "before_loop_pipes R A i a =
     (let evs = posted a @ events i
      in update_head A i evs (game (fold (handle_event R A) evs (a\<lparr>posted := []\<rparr>))))"

text \<open>The events that can fire the restart button: a release of the mouse over it.\<close>

fun restart_release :: "event \<Rightarrow> bool" where
  "restart_release (MOUSEBUTTONUP on_start on_restart) = on_restart"
| "restart_release e = False"

definition no_restart_release :: "event list \<Rightarrow> bool" where
  "no_restart_release evs = list_all (\<lambda>e. \<not> restart_release e) evs"

text \<open>One step of the scoreboard's animation (lines 407--408).\<close>

definition scoreboard_step :: "assets \<Rightarrow> int \<Rightarrow> int" where
  "scoreboard_step A y = (if y + snd (scoreboard_size A) div 2 > 450 then y - 20 else y)"

definition overlay :: "Game \<Rightarrow> bool \<times> bool \<times> int \<times> int \<times> int \<times> int \<times> int" where
  "overlay g = (game_started g, game_ended g, score g, best_score g, final_score_txt g,
                best_score_txt g, scoreboard_rect_y g)"

text \<open>Invariants of the game state.\<close>

definition gen_inv :: "Game \<Rightarrow> bool" where
  "gen_inv g = (0 \<le> distance_from_last_pipe g
      \<and> spawning_dist_floor - spawning_dist_step < pipe_spawning_dist g
      \<and> 0 < game_speed g)"

definition rot_ok :: "Player \<Rightarrow> bool" where
  "rot_ok p = (min_rotation \<le> rotation p \<and> rotation p \<le> max_rotation)"

definition rot_inv :: "Game \<Rightarrow> bool" where
  "rot_inv g = rot_ok (player g)"

definition idle_ok :: "Game \<Rightarrow> bool" where
  "idle_ok g =
     (let y = rect_y (rect (player g))
      in snd player_starting_pos - player_min_idle_pos_y \<le> y
         \<and> y \<le> snd player_starting_pos + player_max_idle_pos_y
         \<and> (if y = snd player_starting_pos + player_max_idle_pos_y then player_idle_vel g = - 1
             else if y = snd player_starting_pos - player_min_idle_pos_y then player_idle_vel g = 1
             else True))"

definition start_inv :: "Game \<Rightarrow> bool" where
  "start_inv g =
     (\<bar>player_idle_vel g\<bar> = 1
      \<and> (\<not> game_started g \<longrightarrow> pipes g = [] \<and> \<not> game_ended g \<and> idle_ok g))"

section \<open>Library facts\<close>

lemma py_round_of_int: "py_round (of_int n) = n"
  by (simp add: py_round_def)

lemma randint_range: "a \<le> b \<Longrightarrow> a \<le> randint a b r \<and> randint a b r \<le> b"
  unfolding randint_def
  using pos_mod_bound[of "b - a + 1" "int r"] pos_mod_sign[of "b - a + 1" "int r"] by linarith

lemma choices_short: "choices short_pipe_h_offset r \<in> {220, 370, 520}"
proof -
  have "r mod 3 < 3" by simp
  then have "r mod 3 = 0 \<or> r mod 3 = 1 \<or> r mod 3 = 2" by linarith
  then show ?thesis
    by (auto simp: choices_def short_pipe_h_offset_def pipe_height_offsets_def min_pipe_height_def)
qed

lemma choices_far: "choices far_pipe_h_offset r \<in> {420, 570, 720}"
proof -
  have "r mod 3 < 3" by simp
  then have "r mod 3 = 0 \<or> r mod 3 = 1 \<or> r mod 3 = 2" by linarith
  then show ?thesis
    by (auto simp: choices_def far_pipe_h_offset_def pipe_height_offsets_def
        min_pipe_height_def pipe_gap_width_def)
qed



section \<open>Invariants through the loops and the tick\<close>

lemma fold_invariant:
  "(\<And>e g. P g \<Longrightarrow> P (f e g)) \<Longrightarrow> P g \<Longrightarrow> P (fold f evs g)"
  by (induction evs arbitrary: g) simp_all

lemma snd_move_pipes_Cons:
  "snd (move_pipes (ob # obs) g)
     = snd (move_pipes obs (check_passed (PipeObstacle_move (game_speed g) ob) g))"
  by (simp add: Let_def split: prod.splits)

lemma move_pipes_invariant:
  "(\<And>g. P g \<Longrightarrow> P (pass_pipe g)) \<Longrightarrow> P g \<Longrightarrow> P (snd (move_pipes obs g))"
proof (induction obs arbitrary: g)
  case Nil
  then show ?case by simp
next
  case (Cons ob obs)
  have "P (check_passed (PipeObstacle_move (game_speed g) ob) g)"
    using Cons.prems by (simp add: check_passed_def)
  then show ?case
    unfolding snd_move_pipes_Cons using Cons.IH Cons.prems(1) by blast
qed

lemma move_obstacles_invariant:
  assumes "\<And>g. P g \<Longrightarrow> P (pass_pipe g)"
    and "\<And>g gr. P g \<Longrightarrow> P (g\<lparr>ground := gr\<rparr>)"
    and "\<And>g ps. P g \<Longrightarrow> P (g\<lparr>pipes := ps\<rparr>)"
    and "P g"
  shows "P (move_obstacles g)"
proof -
  let ?gm = "g\<lparr>ground := GroundObstacle_move (game_speed g) (ground g)\<rparr>"
  have "P ?gm" using assms by blast
  then have "P (snd (move_pipes (pipes ?gm) ?gm))"
    using assms(1) by (rule move_pipes_invariant[rotated])
  then have "P ((snd (move_pipes (pipes ?gm) ?gm))\<lparr>pipes := fst (move_pipes (pipes ?gm) ?gm)\<rparr>)"
    using assms(3) by blast
  then show ?thesis
    by (auto simp: move_obstacles_def Let_def split: prod.splits)
qed

lemma move_obstacles_unchanged:
  "player (move_obstacles g) = player g"
  "game_speed (move_obstacles g) = game_speed g"
  "game_started (move_obstacles g) = game_started g"
  "game_ended (move_obstacles g) = game_ended g"
  "distance_from_last_pipe (move_obstacles g) = distance_from_last_pipe g"
  "best_score (move_obstacles g) = best_score g"
  "player_idle_vel (move_obstacles g) = player_idle_vel g"
  "previous_pipe_serial (move_obstacles g) = previous_pipe_serial g"
  "last_pipe_gap_pos (move_obstacles g) = last_pipe_gap_pos g"
  "final_score_txt (move_obstacles g) = final_score_txt g"
  "best_score_txt (move_obstacles g) = best_score_txt g"
  "scoreboard_rect_y (move_obstacles g) = scoreboard_rect_y g"
  "starting_screen_button_pressed (move_obstacles g) = starting_screen_button_pressed g"
  "restart_game_button_pressed (move_obstacles g) = restart_game_button_pressed g"
  "random_pos (move_obstacles g) = random_pos g"
  by (rule move_obstacles_invariant[where g = g], simp_all add: pass_pipe_def Let_def)+

lemma Button_update_invariant:
  assumes "\<And>v g. P g \<Longrightarrow> P (set_pressed b v g)"
    and "\<And>g. P g \<Longrightarrow> P (action b g)"
    and "P g"
  shows "P (Button_update b evs g)"
  unfolding Button_update_def
proof (rule fold_invariant[where P = P])
  fix e g assume "P g"
  then show "P (Button_event b e g)"
    using assms(1,2) by (cases e) (simp_all add: Let_def)
qed (rule assms(3))

lemma initiate_game_over_screen_invariant:
  assumes "\<And>g. P g \<Longrightarrow> P (game_over_entry g)"
    and "\<And>g. P g \<Longrightarrow> P (g\<lparr>game_ended := True, player := (player g)\<lparr>disable_jumping := True\<rparr>\<rparr>)"
    and "\<And>g y. P g \<Longrightarrow> P (g\<lparr>scoreboard_rect_y := y\<rparr>)"
    and "\<And>g. P g \<Longrightarrow> P (Button_update restart_game_button evs g)"
    and "P g"
  shows "P (initiate_game_over_screen A evs g)"
  unfolding initiate_game_over_screen_def Let_def
  using assms by simp

lemma update_head_invariant:
  assumes "\<And>g. P g \<Longrightarrow> \<not> game_ended g \<Longrightarrow> P (move_obstacles g)"
    and "\<And>g. P g \<Longrightarrow> game_started g \<or> game_ended g
            \<Longrightarrow> P (initiate_game_over_screen A evs g)"
    and "\<And>g p. P g \<Longrightarrow> game_started g \<Longrightarrow> Player_update A i evs (player g) = Some p
            \<Longrightarrow> P (g\<lparr>player := p\<rparr>)"
    and "P g"
  shows "P (update_head A i evs g)"
  unfolding update_head_def Let_def
  using assms by (simp split: option.splits)

lemma add_pipes_unchanged:
  "player (add_pipes R A g) = player g"
  "game_speed (add_pipes R A g) = game_speed g"
  "game_started (add_pipes R A g) = game_started g"
  "game_ended (add_pipes R A g) = game_ended g"
  "distance_from_last_pipe (add_pipes R A g) = distance_from_last_pipe g"
  "pipe_spawning_dist (add_pipes R A g) = pipe_spawning_dist g"
  "best_score (add_pipes R A g) = best_score g"
  "score (add_pipes R A g) = score g"
  "player_idle_vel (add_pipes R A g) = player_idle_vel g"
  "final_score_txt (add_pipes R A g) = final_score_txt g"
  "best_score_txt (add_pipes R A g) = best_score_txt g"
  "scoreboard_rect_y (add_pipes R A g) = scoreboard_rect_y g"
  "ground (add_pipes R A g) = ground g"
  by (simp_all add: add_pipes_def Let_def)

lemma loop_pipes_unchanged:
  "player (loop_pipes R A g) = player g"
  "game_speed (loop_pipes R A g) = game_speed g"
  "game_started (loop_pipes R A g) = game_started g"
  "game_ended (loop_pipes R A g) = game_ended g"
  "pipe_spawning_dist (loop_pipes R A g) = pipe_spawning_dist g"
  "best_score (loop_pipes R A g) = best_score g"
  "score (loop_pipes R A g) = score g"
  "player_idle_vel (loop_pipes R A g) = player_idle_vel g"
  "final_score_txt (loop_pipes R A g) = final_score_txt g"
  "best_score_txt (loop_pipes R A g) = best_score_txt g"
  "scoreboard_rect_y (loop_pipes R A g) = scoreboard_rect_y g"
  "ground (loop_pipes R A g) = ground g"
  by (simp_all add: loop_pipes_def add_pipes_unchanged)

lemma update_invariant:
  assumes "\<And>g. P g \<Longrightarrow> \<not> game_ended g \<Longrightarrow> P (move_obstacles g)"
    and "\<And>g. P g \<Longrightarrow> game_started g \<or> game_ended g
            \<Longrightarrow> P (initiate_game_over_screen A evs g)"
    and "\<And>g p. P g \<Longrightarrow> game_started g \<Longrightarrow> Player_update A i evs (player g) = Some p
            \<Longrightarrow> P (g\<lparr>player := p\<rparr>)"
    and "\<And>g. P g \<Longrightarrow> game_started g \<Longrightarrow> P (loop_pipes R A g)"
    and "\<And>g. P g \<Longrightarrow> game_started g
            \<Longrightarrow> P (g\<lparr>distance_from_last_pipe := distance_from_last_pipe g + game_speed g\<rparr>)"
    and "\<And>g. P g \<Longrightarrow> \<not> game_started g \<Longrightarrow> P (Button_update starting_screen_button evs g)"
    and "\<And>g. P g \<Longrightarrow> P (idle_animation g)"
    and "P g"
  shows "P (update R A i evs g)"
proof -
  let ?g2 = "update_head A i evs g"
  have h: "P ?g2"
    by (rule update_head_invariant[where P = P]) (use assms in blast)+
  show ?thesis
  proof (cases "game_started ?g2 \<and> \<not> game_ended ?g2")
    case True
    let ?g3 = "loop_pipes R A ?g2"
    let ?g4 = "?g3\<lparr>distance_from_last_pipe := distance_from_last_pipe ?g3 + game_speed ?g3\<rparr>"
    have 3: "P ?g3" using h True assms(4) by blast
    have s3: "game_started ?g3" using True by (simp add: loop_pipes_unchanged)
    with 3 have 4: "P ?g4" using assms(5) by blast
    have "game_started ?g4" using s3 by simp
    with 4 have "P (initiate_game_over_screen A evs ?g4)" using assms(2) by blast
    moreover
    have "update R A i evs g = (if collides i then initiate_game_over_screen A evs ?g4 else ?g4)"
      using True by (simp add: update_def Let_def)
    ultimately show ?thesis using 4 by simp
  next
    case False
    show ?thesis
    proof (cases "game_started ?g2")
      case True
      with False have "update R A i evs g = ?g2" by (simp add: update_def Let_def)
      then show ?thesis using h by simp
    next
      case False
      then have "update R A i evs g = idle_animation (Button_update starting_screen_button evs ?g2)"
        by (simp add: update_def Let_def)
      then show ?thesis using h False assms(6,7) by simp
    qed
  qed
qed

lemma game_handle_event:
  fixes a :: App
  shows "game (handle_event R A e a)
     = (if e = ADD_PIPE \<and> game_started (game a) then add_pipes R A (game a) else game a)"
  by (cases e) (simp_all add: handle_event_def Let_def)

lemma handle_events_invariant:
  fixes a :: App
  assumes "\<And>g. P g \<Longrightarrow> game_started g \<Longrightarrow> P (add_pipes R A g)"
    and "P (game a)"
  shows "P (game (fold (handle_event R A) evs a))"
proof (rule fold_invariant[where P = "\<lambda>a. P (game a)"])
  fix e and a :: App assume "P (game a)"
  then show "P (game (handle_event R A e a))"
    using assms(1) by (simp add: game_handle_event)
qed (rule assms(2))

lemma frame_invariant:
  fixes a :: App
  assumes "\<And>g. P g \<Longrightarrow> game_started g \<Longrightarrow> P (add_pipes R A g)"
    and "\<And>g evs. P g \<Longrightarrow> P (update R A i evs g)"
    and "\<And>g. P g \<Longrightarrow> P (g\<lparr>game_speed := new_game_speed (fps i)\<rparr>)"
    and "P (game a)"
  shows "P (game (frame R A i a))"
proof -
  let ?evs = "posted a @ events i"
  let ?a1 = "fold (handle_event R A) ?evs (a\<lparr>posted := []\<rparr>)"
  have "P (game ?a1)"
    by (rule handle_events_invariant[where P = P]) (use assms in simp_all)
  then have "P ((update R A i ?evs (game ?a1))\<lparr>game_speed := new_game_speed (fps i)\<rparr>)"
    using assms(2,3) by blast
  then show ?thesis by (simp add: frame_def Let_def)
qed

lemma run_invariant:
  fixes a :: App
  assumes "\<And>i (a::App). P (game a) \<Longrightarrow> P (game (frame R A i a))"
    and "P (game a)"
  shows "P (game (run R A ins a))"
  using assms(2)
proof (induction ins arbitrary: a)
  case Nil
  then show ?case by simp
next
  case (Cons i ins)
  then show ?case using assms(1) by simp
qed

lemma posted_handle_event:
  fixes a :: App
  shows "posted (handle_event R A e a) = posted a @ (if e = KEYDOWN K_f then [ADD_PIPE] else [])"
  by (cases e) (simp_all add: handle_event_def Let_def)

lemma handle_events_posted:
  fixes a :: App
  shows "posted (fold (handle_event R A) evs a)
           = posted a @ map (\<lambda>e. ADD_PIPE) (filter (\<lambda>e. e = KEYDOWN K_f) evs)"
  by (induction evs arbitrary: a) (simp_all add: posted_handle_event)

lemma handle_events_started:
  fixes a :: App
  shows "game_started (game (fold (handle_event R A) evs a)) = game_started (game a)"
  by (induction evs arbitrary: a) (simp_all add: game_handle_event add_pipes_unchanged)

lemma handle_events_spawn:
  fixes a :: App
  assumes "game_started (game a)"
  shows "length (pipes (game (fold (handle_event R A) evs a)))
           = length (pipes (game a)) + 2 * count_list evs ADD_PIPE
         \<and> distance_from_last_pipe (game (fold (handle_event R A) evs a))
           = distance_from_last_pipe (game a)
         \<and> game_ended (game (fold (handle_event R A) evs a)) = game_ended (game a)"
  using assms
proof (induction evs arbitrary: a)
  case Nil
  then show ?case by simp
next
  case (Cons e evs)
  have "game_started (game (handle_event R A e a))"
    using Cons.prems by (simp add: game_handle_event add_pipes_unchanged)
  from Cons.IH[OF this] show ?case
    using Cons.prems
    by (simp add: game_handle_event add_pipes_unchanged) (simp add: add_pipes_def Let_def)
qed

lemma handle_events_not_started:
  fixes a :: App
  assumes "\<not> game_started (game a)"
  shows "game (fold (handle_event R A) evs a) = game a"
  using assms by (induction evs arbitrary: a) (simp_all add: game_handle_event)

lemma handle_events_overlay:
  fixes a :: App
  shows "overlay (game (fold (handle_event R A) evs a)) = overlay (game a)"
  by (rule handle_events_invariant[where P = "\<lambda>g. overlay g = overlay (game a)"])
     (simp_all add: overlay_def add_pipes_unchanged)

lemma posted_frame_quiet:
  fixes a :: App
  shows "no_restart_release (posted (frame R A i a))"
  by (auto simp: frame_def Let_def handle_events_posted no_restart_release_def list_all_iff)

lemma update_head_shape:
  "\<exists>p. update_head A i evs g
         = (if game_ended g then initiate_game_over_screen A evs g else move_obstacles g)
             \<lparr>player := p\<rparr>"
proof -
  let ?g1 = "if game_ended g then initiate_game_over_screen A evs g else move_obstacles g"
  show ?thesis
  proof (cases "game_started ?g1")
    case True
    show ?thesis
    proof (cases "Player_update A i evs (player ?g1)")
      case None
      with True show ?thesis
        by (intro exI[of _ "player ?g1"]) (simp add: update_head_def Let_def)
    next
      case (Some p)
      with True show ?thesis
        by (intro exI[of _ p]) (simp add: update_head_def Let_def)
    qed
  next
    case False
    then show ?thesis
      by (intro exI[of _ "player ?g1"]) (simp add: update_head_def Let_def)
  qed
qed

section \<open>Frame-rate correction of the scroll speed\<close>

lemma new_game_speed_measured:
  "0 < f \<Longrightarrow> new_game_speed f = py_round (of_int game_fps / min f (of_int game_fps)) * static_game_speed"
  by (simp add: new_game_speed_def)

lemma new_game_speed_60: "new_game_speed 60 = 2 * static_game_speed"
  by (simp add: new_game_speed_def py_round_def game_fps_def)

lemma new_game_speed_120: "new_game_speed 120 = 1 * static_game_speed"
  by (simp add: new_game_speed_def py_round_def game_fps_def)

text \<open>
  C1. The scroll displacement of a tick is \<open>c * static_game_speed\<close> with
  \<open>c = round(game_fps / min(F_actual, game_fps))\<close> for a measured rate \<open>F_actual > 0\<close>
  (\<open>new_game_speed_measured\<close>; \<open>c = 2\<close> at 60 and \<open>c = 1\<close> at 120). With no
  measurement, \<open>F_actual = 0\<close>, the claim's factor is 1; the program rounds
  \<open>game_fps\<close> itself and the factor is 120: the displacement is 240 pixels, not 2.
\<close>

theorem new_game_speed_unmeasured:
  "new_game_speed 0 = 120 * static_game_speed \<and> new_game_speed 0 \<noteq> 1 * static_game_speed"
  by (simp add: new_game_speed_def py_round_def game_fps_def static_game_speed_def)

section \<open>Geometry of a spawned pair\<close>

lemma top_pipe_height_range:
  "min_pipe_height \<le> top_pipe_height R g \<and>
   top_pipe_height R g \<le> game_height - pipe_gap_width - min_pipe_height"
proof (cases "farthest_side g = 0")
  case True
  let ?c = "choices short_pipe_h_offset (R (random_pos g))"
  have "?c \<in> {220, 370, 520}" by (rule choices_short)
  then have c: "70 \<le> ?c" "?c \<le> 520" by auto
  from randint_range[of 70 ?c "R (random_pos g + 1)"] c
  show ?thesis using True
    by (simp add: top_pipe_height_def Let_def min_pipe_height_def game_height_def
        SCREEN_HEIGHT_def ground_image_height_def pipe_gap_width_def)
next
  case False
  then have fs: "farthest_side g = game_height"
    by (simp add: farthest_side_def split: if_splits)
  let ?c = "choices far_pipe_h_offset (R (random_pos g))"
  have "?c \<in> {420, 570, 720}" by (rule choices_far)
  then have c: "270 \<le> ?c" "?c \<le> 720" by auto
  from randint_range[of 270 ?c "R (random_pos g + 1)"] c
  show ?thesis using False fs
    by (simp add: top_pipe_height_def Let_def min_pipe_height_def game_height_def
        SCREEN_HEIGHT_def ground_image_height_def pipe_gap_width_def)
qed

text \<open>
  C3. Every pair that \<open>add_pipes\<close> spawns: the top pipe hangs from \<open>y = 0\<close>, the
  bottom pipe stands on the ground line, the bottom pipe's top edge minus the top
  pipe's bottom edge is exactly \<open>pipe_gap_width\<close> (200), the top gap edge is at least 0
  and the bottom gap edge at most \<open>game_height\<close>. The head image is not higher than
  \<open>min_pipe_height\<close>, as the comment at that attribute asks.
\<close>

theorem add_pipes_gap:
  assumes head: "snd (head_image_size A) \<le> min_pipe_height"
  shows "let h = top_pipe_height R g;
             top_pipe = new_top_pipe A h (previous_pipe_serial g);
             bottom_pipe = new_bottom_pipe A h (previous_pipe_serial g)
         in pipes (add_pipes R A g) = pipes g @ [top_pipe, bottom_pipe]
            \<and> rect_y (pipe_rect top_pipe) = 0
            \<and> rect_bottom (pipe_rect bottom_pipe) = game_height
            \<and> rect_y (pipe_rect bottom_pipe) - rect_bottom (pipe_rect top_pipe) = pipe_gap_width
            \<and> 0 \<le> rect_bottom (pipe_rect top_pipe)
            \<and> rect_y (pipe_rect bottom_pipe) \<le> game_height"
proof -
  note r = top_pipe_height_range[of R g]
  show ?thesis using r head
    by (simp add: Let_def add_pipes_def new_top_pipe_def new_bottom_pipe_def change_height_def
        PipeObstacle_init_def rect_bottom_def min_pipe_height_def game_height_def
        SCREEN_HEIGHT_def ground_image_height_def pipe_gap_width_def max_def)
qed

theorem add_pipes_gap_witness:
  "snd (head_image_size example_assets) \<le> min_pipe_height
   \<and> pipes (add_pipes example_random example_assets example_game)
       = [\<lparr>pipe_rect = \<lparr>rect_x = 1200, rect_y = 0, rect_w = 104, rect_h = 529\<rparr>, serial_num = 0\<rparr>,
          \<lparr>pipe_rect = \<lparr>rect_x = 1200, rect_y = 729, rect_w = 104, rect_h = 71\<rparr>, serial_num = 0\<rparr>]
   \<and> (729::int) - (0 + 529) = pipe_gap_width"
proof -
  have h: "snd (head_image_size example_assets) \<le> min_pipe_height"
    by (simp add: example_assets_def min_pipe_height_def)
  have t: "top_pipe_height example_random example_game = 529"
    by (simp add: top_pipe_height_def farthest_side_def example_game_def setup_game_def
        GameManager_init_def example_random_def randint_def choices_def far_pipe_h_offset_def
        pipe_height_offsets_def min_pipe_height_def pipe_gap_width_def game_height_def
        SCREEN_HEIGHT_def ground_image_height_def)
  have p: "pipes example_game = []" "previous_pipe_serial example_game = 0"
    by (simp_all add: example_game_def setup_game_def GameManager_init_def)
  from add_pipes_gap[OF h, of example_random example_game] h show ?thesis
    by (simp add: t p new_top_pipe_def new_bottom_pipe_def change_height_def
        PipeObstacle_init_def example_assets_def game_height_def SCREEN_HEIGHT_def
        SCREEN_WIDTH_def ground_image_height_def pipe_gap_width_def)
qed

section \<open>The spawn accumulator\<close>

lemma py_round_ge_1: "1 \<le> x \<Longrightarrow> 1 \<le> py_round x"
proof -
  assume "1 \<le> x"
  then have "1 \<le> \<lfloor>x\<rfloor>" by simp
  then show ?thesis by (simp add: py_round_def Let_def)
qed

lemma new_game_speed_pos: "0 < new_game_speed f"
proof (cases "0 < f")
  case True
  have "0 < min f (of_int game_fps)" using True by (simp add: game_fps_def)
  moreover have "min f (of_int game_fps) \<le> of_int game_fps" by simp
  ultimately have "1 \<le> of_int game_fps / min f (of_int game_fps)"
    by (simp add: le_divide_eq_1_pos)
  then have "1 \<le> py_round (of_int game_fps / min f (of_int game_fps))"
    by (rule py_round_ge_1)
  then show ?thesis using True by (simp add: new_game_speed_def static_game_speed_def)
next
  case False
  have "py_round (of_int game_fps) = game_fps" by (rule py_round_of_int)
  then show ?thesis using False
    by (simp add: new_game_speed_def static_game_speed_def game_fps_def)
qed

lemma gen_inv_move_obstacles: "gen_inv g \<Longrightarrow> gen_inv (move_obstacles g)"
  by (rule move_obstacles_invariant) (auto simp: gen_inv_def pass_pipe_def Let_def)

lemma gen_inv_game_over: "gen_inv g \<Longrightarrow> gen_inv (initiate_game_over_screen A evs g)"
proof (rule initiate_game_over_screen_invariant[where P = gen_inv])
  fix g assume "gen_inv g"
  then show "gen_inv (Button_update restart_game_button evs g)"
    by (rule Button_update_invariant[where P = gen_inv, rotated -1])
       (simp_all add: gen_inv_def restart_game_def)
qed (simp_all add: gen_inv_def game_over_entry_def Let_def)

lemma gen_inv_update: "gen_inv g \<Longrightarrow> gen_inv (update R A i evs g)"
proof (rule update_invariant[where P = gen_inv])
  fix g assume g: "gen_inv g"
  show "gen_inv (Button_update starting_screen_button evs g)"
    using g by (rule Button_update_invariant[where P = gen_inv, rotated -1])
       (simp_all add: gen_inv_def initiate_game_def)
  show "gen_inv (idle_animation g)"
    using g by (simp add: gen_inv_def idle_animation_def Let_def)
  show "gen_inv (loop_pipes R A g)"
    using g by (simp add: gen_inv_def loop_pipes_def add_pipes_unchanged)
  show "gen_inv (g\<lparr>distance_from_last_pipe := distance_from_last_pipe g + game_speed g\<rparr>)"
    using g by (simp add: gen_inv_def)
qed (simp_all add: gen_inv_move_obstacles gen_inv_game_over, simp add: gen_inv_def)

lemma gen_inv_frame: "gen_inv (game (a::App)) \<Longrightarrow> gen_inv (game (frame R A i a))"
  by (rule frame_invariant[where P = gen_inv])
     (simp_all add: gen_inv_update, simp_all add: gen_inv_def add_pipes_unchanged new_game_speed_pos)

lemma gen_inv_init: "gen_inv (game (App_init A))"
  by (simp add: App_init_def setup_game_def GameManager_init_def gen_inv_def
      spawning_dist_floor_def spawning_dist_step_def static_game_speed_def)

lemma gen_inv_run: "gen_inv (game (run R A ins (App_init A)))"
  by (rule run_invariant[where P = gen_inv]) (simp_all add: gen_inv_frame gen_inv_init)

lemma frame_playing:
  fixes a :: App
  assumes "game_started (before_loop_pipes R A i a)" "\<not> game_ended (before_loop_pipes R A i a)"
  shows "game (frame R A i a) =
    (let g3 = loop_pipes R A (before_loop_pipes R A i a);
         g4 = g3\<lparr>distance_from_last_pipe := distance_from_last_pipe g3 + game_speed g3\<rparr>
     in (if collides i then initiate_game_over_screen A (posted a @ events i) g4 else g4)
          \<lparr>game_speed := new_game_speed (fps i)\<rparr>)"
  using assms by (simp add: frame_def update_def before_loop_pipes_def Let_def)

lemma gen_inv_before_loop_pipes:
  "gen_inv (before_loop_pipes R A i (run R A ins (App_init A)))"
proof -
  let ?a = "run R A ins (App_init A)"
  let ?evs = "posted ?a @ events i"
  have "gen_inv (game (fold (handle_event R A) ?evs (?a\<lparr>posted := []\<rparr>)))"
    by (rule handle_events_invariant[where P = gen_inv])
       (simp_all add: gen_inv_run, simp add: gen_inv_def add_pipes_unchanged)
  then have "gen_inv (update_head A i ?evs (game (fold (handle_event R A) ?evs (?a\<lparr>posted := []\<rparr>))))"
    by (rule update_head_invariant[where P = gen_inv, rotated -1])
       (simp_all add: gen_inv_move_obstacles gen_inv_game_over, simp add: gen_inv_def)
  then show ?thesis by (simp add: before_loop_pipes_def Let_def)
qed

text \<open>
  C5. After any sequence of frames, in the state in which \<open>update\<close> calls \<open>loop_pipes\<close>:
  when the call returns, \<open>distance_from_last_pipe\<close> lies in
  \<open>[0, pipe_spawning_dist)\<close>; a pair is spawned and the accumulator is reset to 0
  exactly when the accumulated distance had reached the threshold or was 0, and
  otherwise the call changes nothing.
\<close>

theorem loop_pipes_accumulator:
  "let g = before_loop_pipes R A i (run R A ins (App_init A));
       g' = loop_pipes R A g
   in 0 \<le> distance_from_last_pipe g'
      \<and> of_int (distance_from_last_pipe g') < pipe_spawning_dist g'
      \<and> (if pipe_spawning_dist g \<le> of_int (distance_from_last_pipe g)
              \<or> distance_from_last_pipe g = 0
          then distance_from_last_pipe g' = 0 \<and> length (pipes g') = length (pipes g) + 2
          else g' = g)"
proof -
  let ?g = "before_loop_pipes R A i (run R A ins (App_init A))"
  have "gen_inv ?g" by (rule gen_inv_before_loop_pipes)
  then have "0 \<le> distance_from_last_pipe ?g" "0 < pipe_spawning_dist ?g"
    by (simp_all add: gen_inv_def spawning_dist_floor_def spawning_dist_step_def)
  then show ?thesis
    by (simp add: Let_def loop_pipes_def add_pipes_def)
qed

theorem loop_pipes_accumulator_witness:
  "let g = before_loop_pipes example_random example_assets (example_frame 8 [])
             (run example_random example_assets [example_frame 0 start_click]
                (App_init example_assets));
       g' = loop_pipes example_random example_assets g
   in game_started g \<and> \<not> game_ended g \<and> distance_from_last_pipe g = 0
      \<and> 0 \<le> distance_from_last_pipe g'
      \<and> of_int (distance_from_last_pipe g') < pipe_spawning_dist g'
      \<and> length (pipes g') = length (pipes g) + 2"
proof -
  let ?g = "before_loop_pipes example_random example_assets (example_frame 8 [])
             (run example_random example_assets [example_frame 0 start_click]
                (App_init example_assets))"
  have "game_started ?g" "\<not> game_ended ?g" "distance_from_last_pipe ?g = 0"
    by code_simp+
  with loop_pipes_accumulator[of example_random example_assets "example_frame 8 []"
      "[example_frame 0 start_click]"]
  show ?thesis by (simp add: Let_def)
qed

section \<open>The difficulty ramp\<close>

lemma pass_pipe_above:
  "spawning_dist_floor < pipe_spawning_dist g
     \<Longrightarrow> pipe_spawning_dist (pass_pipe g) = pipe_spawning_dist g - spawning_dist_step"
  "score (pass_pipe g) = score g + 1"
  by (simp_all add: pass_pipe_def Let_def score_increase_def)

lemma pass_pipe_iterated:
  assumes "pipe_spawning_dist g = 600" and "n \<le> 1000"
  shows "pipe_spawning_dist ((pass_pipe ^^ n) g) = 600 - of_nat n * spawning_dist_step
         \<and> score ((pass_pipe ^^ n) g) = score g + int n"
  using assms(2)
proof (induction n)
  case 0
  then show ?case using assms(1) by simp
next
  case (Suc n)
  then have ih: "pipe_spawning_dist ((pass_pipe ^^ n) g) = 600 - of_nat n * spawning_dist_step"
    "score ((pass_pipe ^^ n) g) = score g + int n" and n: "n \<le> 999"
    by simp_all
  from n have "(of_nat n :: rat) \<le> 999" by simp
  then have "of_nat n * spawning_dist_step \<le> 999 * spawning_dist_step"
    by (simp add: spawning_dist_step_def)
  then have "spawning_dist_floor < pipe_spawning_dist ((pass_pipe ^^ n) g)"
    unfolding ih by (simp add: spawning_dist_floor_def spawning_dist_step_def)
  then have "pipe_spawning_dist ((pass_pipe ^^ Suc n) g)
               = pipe_spawning_dist ((pass_pipe ^^ n) g) - spawning_dist_step"
    by (simp add: pass_pipe_above)
  then show ?case
    using ih by (simp add: pass_pipe_above algebra_simps)
qed

lemma passing_run_eval:
  "score (game (run example_random example_assets passing_run (App_init example_assets))) = 1"
  "pipe_spawning_dist (game (run example_random example_assets passing_run (App_init example_assets)))
     = 600 - spawning_dist_step"
  by code_simp+

lemma spawning_dist_lower_bound:
  "spawning_dist_floor - spawning_dist_step < pipe_spawning_dist (game (run R A ins (App_init A)))"
  using gen_inv_run[of R A ins] by (simp add: gen_inv_def)

lemma pass_pipe_unchanged:
  "game_speed (pass_pipe g) = game_speed g"
  "player (pass_pipe g) = player g"
  "current_pipe_serial (pass_pipe g) = current_pipe_serial g + 1"
  by (simp_all add: pass_pipe_def Let_def)

lemma move_pipes_lined_up:
  assumes "rect_x (rect (player g)) > x - game_speed g"
  shows "current_pipe_serial g = serial
           \<Longrightarrow> snd (move_pipes (lined_up x serial n) g) = (pass_pipe ^^ n) g"
  using assms
proof (induction n arbitrary: serial g)
  case 0
  then show ?case by simp
next
  case (Suc n)
  let ?top = "\<lparr>pipe_rect = \<lparr>rect_x = x, rect_y = 0, rect_w = 104, rect_h = 300\<rparr>, serial_num = serial\<rparr>"
  let ?bot = "\<lparr>pipe_rect = \<lparr>rect_x = x, rect_y = 500, rect_w = 104, rect_h = 300\<rparr>, serial_num = serial\<rparr>"
  have t: "check_passed (PipeObstacle_move (game_speed g) ?top) g = pass_pipe g"
    using Suc.prems by (simp add: check_passed_def PipeObstacle_move_def move_ip_def)
  have b: "check_passed (PipeObstacle_move (game_speed (pass_pipe g)) ?bot) (pass_pipe g) = pass_pipe g"
    using Suc.prems by (simp add: check_passed_def PipeObstacle_move_def pass_pipe_unchanged)
  have "snd (move_pipes (lined_up x serial (Suc n)) g)
          = snd (move_pipes (lined_up x (serial + 1) n) (pass_pipe g))"
    by (simp only: lined_up.simps snd_move_pipes_Cons t b)
  also have "\<dots> = (pass_pipe ^^ n) (pass_pipe g)"
    using Suc.prems by (intro Suc.IH) (simp_all add: pass_pipe_unchanged)
  finally show ?case by (simp add: funpow_swap1)
qed

lemma move_obstacles_lined_up:
  assumes "pipes g = lined_up x (current_pipe_serial g) n"
    and "rect_x (rect (player g)) > x - game_speed g"
  shows "pipe_spawning_dist (move_obstacles g) = pipe_spawning_dist ((pass_pipe ^^ n) g)"
    and "score (move_obstacles g) = score ((pass_pipe ^^ n) g)"
proof -
  let ?gm = "g\<lparr>ground := GroundObstacle_move (game_speed g) (ground g)\<rparr>"
  have m: "snd (move_pipes (pipes g) ?gm) = (pass_pipe ^^ n) ?gm"
    using assms by (simp add: move_pipes_lined_up)
  have eq: "(pass_pipe ^^ k) ?gm = ((pass_pipe ^^ k) g)\<lparr>ground := GroundObstacle_move (game_speed g) (ground g)\<rparr>" for k
    by (induction k) (simp_all add: pass_pipe_def Let_def)
  have "move_obstacles g = (snd (move_pipes (pipes g) ?gm))\<lparr>pipes := fst (move_pipes (pipes g) ?gm)\<rparr>"
    by (simp add: move_obstacles_def Let_def split: prod.splits)
  then show "pipe_spawning_dist (move_obstacles g) = pipe_spawning_dist ((pass_pipe ^^ n) g)"
    and "score (move_obstacles g) = score ((pass_pipe ^^ n) g)"
    by (simp_all add: m eq)
qed

text \<open>
  C4. The spawn distance starts at 600 and every passed pair takes
  \<open>spawning_dist_step\<close> from it while it is above 375 (\<open>pass_pipe_above\<close>; in the
  session \<open>passing_run\<close> one pair is passed, \<open>passing_run_eval\<close>); it stays
  above \<open>375 - spawning_dist_step\<close> in every run (\<open>spawning_dist_lower_bound\<close>). It
  does not stay at or above 375: the test precedes the subtraction, and 999 steps
  leave 375.000000225, so the thousandth passed pair takes the distance to
  374.774775. Both from the initial state by a thousand passes and by one call of
  \<open>move_obstacles\<close> in a fresh started game with a thousand pairs lined up behind
  the avatar.
\<close>

theorem spawning_dist_below_floor:
  "pipe_spawning_dist (game (App_init A)) = 600
   \<and> pipe_spawning_dist ((pass_pipe ^^ 999) (game (App_init A))) = 375000000225 / 1000000000
   \<and> pipe_spawning_dist ((pass_pipe ^^ 1000) (game (App_init A))) = 374774775 / 1000000
   \<and> pipe_spawning_dist ((pass_pipe ^^ 1000) (game (App_init A))) < spawning_dist_floor
   \<and> game_started crowded_game \<and> \<not> game_ended crowded_game
   \<and> pipe_spawning_dist crowded_game = 600
   \<and> score (move_obstacles crowded_game) = 1000
   \<and> pipe_spawning_dist (move_obstacles crowded_game) = 374774775 / 1000000
   \<and> pipe_spawning_dist (move_obstacles crowded_game) < spawning_dist_floor"
proof -
  have i: "pipe_spawning_dist (game (App_init A)) = 600"
    by (simp add: App_init_def setup_game_def GameManager_init_def)
  have g: "pipes crowded_game = lined_up 101 (current_pipe_serial crowded_game) 1000"
    "rect_x (rect (player crowded_game)) > 101 - game_speed crowded_game"
    "pipe_spawning_dist crowded_game = 600" "score crowded_game = 0"
    "game_started crowded_game" "\<not> game_ended crowded_game"
    by (simp_all add: crowded_game_def initiate_game_def example_game_def setup_game_def
        GameManager_init_def static_game_speed_def player_starting_pos_def)
  from pass_pipe_iterated[OF i, of 999] pass_pipe_iterated[OF i, of 1000] i
    move_obstacles_lined_up[OF g(1,2)] pass_pipe_iterated[OF g(3), of 1000] g(3,4,5,6)
  show ?thesis by (simp add: spawning_dist_step_def spawning_dist_floor_def)
qed

section \<open>The rotation angle\<close>

lemma impose_gravity_Some:
  assumes "tick_started p = Some started"
  shows "\<exists>p'. impose_gravity A now p = Some p'"
  using assms by (simp add: impose_gravity_def Let_def)

lemma Player_events_started:
  "tick_started p \<noteq> None \<Longrightarrow> tick_started (fold (Player_event now) evs p) \<noteq> None"
proof (rule fold_invariant[where P = "\<lambda>q. tick_started q \<noteq> None"])
  fix e and q :: Player assume "tick_started q \<noteq> None"
  then show "tick_started (Player_event now e q) \<noteq> None"
    by (cases e) (simp_all add: jump_def)
qed

lemma Player_update_Some: "\<exists>p'. Player_update A i evs p = Some p'"
proof -
  let ?p1 = "if tick_started p = None then p\<lparr>tick_started := Some (ticks_update i)\<rparr> else p"
  have "tick_started ?p1 \<noteq> None" by simp
  then have "tick_started (fold (Player_event (ticks_jump i)) evs ?p1) \<noteq> None"
    by (rule Player_events_started)
  then obtain started where
    "tick_started (fold (Player_event (ticks_jump i)) evs ?p1) = Some started" by blast
  from impose_gravity_Some[OF this, of A "ticks_gravity i"]
  show ?thesis by (auto simp: Player_update_def Let_def)
qed

lemma impose_gravity_rotation:
  assumes "impose_gravity A now p = Some p'"
  shows "rotation p' =
     (if \<lceil>vel_of p\<rceil> > 0
      then (if rotation p < max_rotation
            then min max_rotation (rotation p + of_int \<lceil>vel_of p\<rceil> / (5 / 2)) else rotation p)
      else (if rotation p > min_rotation
            then max min_rotation (rotation p - of_int \<bar>\<lceil>vel_of p * 2\<rceil>\<bar>) else rotation p))"
  using assms
  by (auto simp: impose_gravity_def rotate_image_def Let_def split: option.splits if_splits)

lemma rot_ok_impose_gravity:
  assumes "rot_ok p" and "impose_gravity A now p = Some p'"
  shows "rot_ok p'"
proof -
  define up :: rat where "up = of_int \<lceil>vel_of p\<rceil> / (5 / 2)"
  define down :: rat where "down = of_int \<bar>\<lceil>vel_of p * 2\<rceil>\<bar>"
  have r: "- 15 \<le> rotation p" "rotation p \<le> 90"
    using assms(1) by (simp_all add: rot_ok_def min_rotation_def max_rotation_def)
  have down: "0 \<le> down" by (simp add: down_def)
  note step = impose_gravity_rotation[OF assms(2), folded up_def down_def,
      unfolded min_rotation_def max_rotation_def]
  show ?thesis
  proof (cases "\<lceil>vel_of p\<rceil> > 0")
    case True
    then have "0 \<le> up" by (simp add: up_def)
    moreover have "rotation p' = (if rotation p < 90 then min 90 (rotation p + up) else rotation p)"
      using step True by simp
    ultimately show ?thesis using r
      by (simp add: rot_ok_def min_rotation_def max_rotation_def min_def split: if_splits)
  next
    case False
    then have "rotation p' = (if rotation p > - 15 then max (- 15) (rotation p - down) else rotation p)"
      using step by simp
    then show ?thesis using r down
      by (simp add: rot_ok_def min_rotation_def max_rotation_def max_def split: if_splits)
  qed
qed

lemma Player_events_rotation:
  "rotation (fold (Player_event now) evs p) = rotation p"
proof (rule fold_invariant[where P = "\<lambda>q. rotation q = rotation p"])
  fix e and q :: Player assume "rotation q = rotation p"
  then show "rotation (Player_event now e q) = rotation p"
    by (cases e) (simp_all add: jump_def)
qed simp

lemma rot_ok_Player_update:
  assumes "rot_ok p" and "Player_update A i evs p = Some p'"
  shows "rot_ok p'"
proof -
  let ?p1 = "if tick_started p = None then p\<lparr>tick_started := Some (ticks_update i)\<rparr> else p"
  let ?p2 = "fold (Player_event (ticks_jump i)) evs ?p1"
  have 2: "rot_ok ?p2" using assms(1) by (simp add: rot_ok_def Player_events_rotation)
  from assms(2) obtain p3 where 3: "impose_gravity A (ticks_gravity i) ?p2 = Some p3"
    and p': "p' = p3\<lparr>rect := clamp_ip (rect p3)
                        \<lparr>rect_x = 0, rect_y = 0, rect_w = 1200,
                         rect_h = y_boundary + y_boundary_offset\<rparr>\<rparr>"
    by (auto simp: Player_update_def Let_def split: option.splits)
  from 2 3 have "rot_ok p3" by (rule rot_ok_impose_gravity)
  then show ?thesis by (simp add: p' rot_ok_def)
qed

lemma rot_inv_game_over: "rot_inv g \<Longrightarrow> rot_inv (initiate_game_over_screen A evs g)"
proof (rule initiate_game_over_screen_invariant[where P = rot_inv])
  fix g assume "rot_inv g"
  then show "rot_inv (Button_update restart_game_button evs g)"
    by (rule Button_update_invariant[where P = rot_inv, rotated -1])
       (simp_all add: rot_inv_def rot_ok_def restart_game_def reset_def
          min_rotation_def max_rotation_def)
qed (simp_all add: rot_inv_def rot_ok_def game_over_entry_def Let_def)

lemma rot_inv_update: "rot_inv g \<Longrightarrow> rot_inv (update R A i evs g)"
proof (rule update_invariant[where P = rot_inv])
  fix g assume g: "rot_inv g"
  show "rot_inv (Button_update starting_screen_button evs g)"
    using g by (rule Button_update_invariant[where P = rot_inv, rotated -1])
       (simp_all add: rot_inv_def initiate_game_def)
  show "rot_inv (idle_animation g)"
    using g by (simp add: rot_inv_def rot_ok_def idle_animation_def Let_def)
  show "rot_inv (loop_pipes R A g)"
    using g by (simp add: rot_inv_def loop_pipes_unchanged)
  show "rot_inv (g\<lparr>distance_from_last_pipe := distance_from_last_pipe g + game_speed g\<rparr>)"
    using g by (simp add: rot_inv_def)
  show "rot_inv (move_obstacles g)"
    using g by (simp add: rot_inv_def move_obstacles_unchanged)
  show "rot_inv (initiate_game_over_screen A evs g)"
    using g by (rule rot_inv_game_over)
  fix p assume "Player_update A i evs (player g) = Some p"
  with g show "rot_inv (g\<lparr>player := p\<rparr>)"
    by (auto simp: rot_inv_def intro: rot_ok_Player_update)
qed

lemma rot_inv_frame: "rot_inv (game (a::App)) \<Longrightarrow> rot_inv (game (frame R A i a))"
  by (rule frame_invariant[where P = rot_inv])
     (simp_all add: rot_inv_update, simp_all add: rot_inv_def add_pipes_unchanged)

lemma rot_inv_init: "rot_inv (game (App_init A))"
  by (simp add: App_init_def setup_game_def GameManager_init_def Player_init_def rot_inv_def
      rot_ok_def min_rotation_def max_rotation_def)






text \<open>
  C9. After any sequence of frames, whatever their events (jumps or none), clock
  readings, collisions and frame rates, the rotation angle of the avatar lies in
  \<open>[-15, 90]\<close>.
\<close>

theorem rotation_clamped:
  "let p = player (game (run R A ins (App_init A)))
   in - 15 \<le> rotation p \<and> rotation p \<le> 90"
proof -
  have "rot_inv (game (run R A ins (App_init A)))"
    by (rule run_invariant[where P = rot_inv]) (simp_all add: rot_inv_frame rot_inv_init)
  then show ?thesis
    by (simp add: rot_inv_def rot_ok_def min_rotation_def max_rotation_def)
qed

theorem rotation_clamped_witness:
  "let p = player (game (run example_random example_assets passing_run (App_init example_assets)))
   in rotation p = - 15 \<and> - 15 \<le> rotation p \<and> rotation p \<le> 90"
proof -
  have "rotation (player (game (run example_random example_assets passing_run
          (App_init example_assets)))) = - 15"
    unfolding passing_run_def by code_simp
  with rotation_clamped[of example_random example_assets passing_run]
  show ?thesis by (simp add: Let_def)
qed

section \<open>Restart\<close>

lemma game_over_example_eval:
  "game_ended game_over_example" "game_started game_over_example"
  "score game_over_example = 1" "best_score game_over_example = 1"
  "last_pipe_gap_pos game_over_example = 525"
  "pipe_spawning_dist game_over_example = 600 - spawning_dist_step"
  unfolding game_over_example_def passing_run_def by code_simp+

lemma initial_difficulty:
  "pipe_spawning_dist (game (App_init A)) = 600" "last_pipe_gap_pos (game (App_init A)) = 0"
  by (simp_all add: App_init_def setup_game_def GameManager_init_def)

text \<open>
  C2 (amended). \<open>restart_game\<close>, from any state, yields score 0, the avatar at
  \<open>player_starting_pos\<close> with fall time, rotation and clock reset and jumping
  re-enabled, no pipe and both serial numbers 0; it leaves \<open>best_score\<close> as it is, so
  that after a game over \<open>best_score\<close> is the old best if the score did not exceed
  it and the score otherwise; and it returns to the start screen
  (\<open>game_started = False\<close>), from which the start button leads to \<open>Playing\<close>.
\<close>

theorem restart_game_resets:
  "let g' = restart_game g
   in score g' = 0
      \<and> (rect_x (rect (player g')), rect_y (rect (player g'))) = player_starting_pos
      \<and> time (player g') = 0 \<and> rotation (player g') = 1 \<and> tick_started (player g') = None
      \<and> \<not> disable_jumping (player g')
      \<and> pipes g' = []
      \<and> previous_pipe_serial g' = 0 \<and> current_pipe_serial g' = 0
      \<and> best_score g' = best_score g
      \<and> best_score (restart_game (game_over_entry g))
          = (if score g \<le> best_score g then best_score g else score g)
      \<and> phase_of g' = StartScreen
      \<and> phase_of (initiate_game g') = Playing"
  by (simp add: Let_def restart_game_def reset_def game_over_entry_def phase_of_def
      initiate_game_def player_starting_pos_def)

theorem restart_game_resets_witness:
  "let g' = restart_game game_over_example
   in score g' = 0 \<and> pipes g' = [] \<and> best_score g' = 1 \<and> phase_of g' = StartScreen
      \<and> phase_of (initiate_game g') = Playing"
  using restart_game_resets[of game_over_example]
  by (simp add: Let_def game_over_example_eval)

theorem restart_game_counterexample:
  "phase_of game_over_example = GameOver
   \<and> phase_of (restart_game game_over_example) \<noteq> Playing
   \<and> pipe_spawning_dist (restart_game game_over_example)
       \<noteq> pipe_spawning_dist (game (App_init example_assets))
   \<and> last_pipe_gap_pos (restart_game game_over_example)
       \<noteq> last_pipe_gap_pos (game (App_init example_assets))"
  by (simp add: game_over_example_eval initial_difficulty phase_of_def restart_game_def
      spawning_dist_step_def)

section \<open>Game over\<close>

lemma Button_event_restart_quiet:
  assumes "\<not> restart_release e"
  shows "\<exists>v. Button_event restart_game_button e g = g\<lparr>restart_game_button_pressed := v\<rparr>"
proof (cases e)
  case (MOUSEBUTTONDOWN n s r)
  show ?thesis
  proof (cases "n = 1 \<and> r")
    case True
    then show ?thesis using MOUSEBUTTONDOWN by (intro exI[of _ True]) simp
  next
    case False
    then show ?thesis using MOUSEBUTTONDOWN
      by (intro exI[of _ "restart_game_button_pressed g"]) auto
  qed
next
  case (MOUSEBUTTONUP s r)
  with assms have r: "\<not> r" by simp
  show ?thesis
  proof (cases "restart_game_button_pressed g")
    case True
    then show ?thesis using MOUSEBUTTONUP r by (intro exI[of _ False]) (simp add: Let_def)
  next
    case False
    then show ?thesis using MOUSEBUTTONUP
      by (intro exI[of _ "restart_game_button_pressed g"]) simp
  qed
qed (intro exI[of _ "restart_game_button_pressed g"], simp)+

lemma Button_update_restart_quiet:
  assumes "no_restart_release evs"
  shows "\<exists>v. Button_update restart_game_button evs g = g\<lparr>restart_game_button_pressed := v\<rparr>"
  using assms unfolding Button_update_def
proof (induction evs arbitrary: g)
  case Nil
  show ?case by (intro exI[of _ "restart_game_button_pressed g"]) simp
next
  case (Cons e evs)
  then have e: "\<not> restart_release e" and evs: "no_restart_release evs"
    by (simp_all add: no_restart_release_def)
  from Button_event_restart_quiet[OF e, of g] obtain v where
    v: "Button_event restart_game_button e g = g\<lparr>restart_game_button_pressed := v\<rparr>" by blast
  from Cons.IH[OF evs, of "g\<lparr>restart_game_button_pressed := v\<rparr>"] obtain w where
    w: "fold (Button_event restart_game_button) evs (g\<lparr>restart_game_button_pressed := v\<rparr>)
       = g\<lparr>restart_game_button_pressed := v, restart_game_button_pressed := w\<rparr>" by blast
  show ?case by (intro exI[of _ w]) (simp add: v w)
qed

lemma initiate_game_over_screen_quiet:
  assumes "no_restart_release evs"
  shows "\<exists>v. initiate_game_over_screen A evs g =
     (let g1 = (if \<not> game_ended g then game_over_entry g else g)
      in g1\<lparr>game_ended := True, player := (player g1)\<lparr>disable_jumping := True\<rparr>,
            scoreboard_rect_y := scoreboard_step A (scoreboard_rect_y g1),
            restart_game_button_pressed := v\<rparr>)"
proof -
  let ?g1 = "if \<not> game_ended g then game_over_entry g else g"
  let ?g2 = "?g1\<lparr>game_ended := True, player := (player ?g1)\<lparr>disable_jumping := True\<rparr>\<rparr>"
  let ?g3 = "if scoreboard_rect_y ?g2 + snd (scoreboard_size A) div 2 > 450
                then ?g2\<lparr>scoreboard_rect_y := scoreboard_rect_y ?g2 - 20\<rparr> else ?g2"
  from Button_update_restart_quiet[OF assms, of ?g3] obtain v where
    v: "Button_update restart_game_button evs ?g3 = ?g3\<lparr>restart_game_button_pressed := v\<rparr>"
    by blast
  have "initiate_game_over_screen A evs g = ?g3\<lparr>restart_game_button_pressed := v\<rparr>"
    unfolding initiate_game_over_screen_def Let_def v[symmetric] ..
  also have "?g3 = ?g2\<lparr>scoreboard_rect_y := scoreboard_step A (scoreboard_rect_y ?g2)\<rparr>"
    by (simp add: scoreboard_step_def)
  finally show ?thesis by (intro exI[of _ v]) (simp add: Let_def)
qed

lemma update_game_over_quiet:
  assumes "game_ended g" and "game_started g" and "no_restart_release evs"
  shows "\<exists>p v. update R A i evs g =
           g\<lparr>game_ended := True, player := p,
             scoreboard_rect_y := scoreboard_step A (scoreboard_rect_y g),
             restart_game_button_pressed := v\<rparr>"
proof -
  from initiate_game_over_screen_quiet[OF assms(3), of A g] assms(1) obtain v where
    v: "initiate_game_over_screen A evs g =
          g\<lparr>game_ended := True, player := (player g)\<lparr>disable_jumping := True\<rparr>,
            scoreboard_rect_y := scoreboard_step A (scoreboard_rect_y g),
            restart_game_button_pressed := v\<rparr>"
    by (auto simp: Let_def)
  from update_head_shape[of A i evs g] assms(1) obtain p where
    p: "update_head A i evs g = (initiate_game_over_screen A evs g)\<lparr>player := p\<rparr>" by auto
  have "update R A i evs g = update_head A i evs g"
    using assms(2) by (simp add: update_def Let_def p v)
  then show ?thesis by (intro exI[of _ p] exI[of _ v]) (simp add: p v)
qed

lemma update_collision_quiet:
  assumes "game_started g" and "\<not> game_ended g" and "collides i" and "no_restart_release evs"
  shows "let g' = update R A i evs g
         in game_ended g' \<and> game_started g'
            \<and> score g' = score (move_obstacles g)
            \<and> best_score g' = max (best_score g) (score g')
            \<and> final_score_txt g' = score g'
            \<and> best_score_txt g' = best_score g'
            \<and> scoreboard_rect_y g' = scoreboard_step A SCREEN_HEIGHT"
proof -
  from update_head_shape[of A i evs g] assms(2) obtain p where
    p: "update_head A i evs g = (move_obstacles g)\<lparr>player := p\<rparr>" by auto
  let ?g2 = "(move_obstacles g)\<lparr>player := p\<rparr>"
  let ?g3 = "loop_pipes R A ?g2"
  let ?g4 = "?g3\<lparr>distance_from_last_pipe := distance_from_last_pipe ?g3 + game_speed ?g3\<rparr>"
  have flags: "game_started ?g2" "\<not> game_ended ?g2"
    using assms(1,2) by (simp_all add: move_obstacles_unchanged)
  then have u: "update R A i evs g = initiate_game_over_screen A evs ?g4"
    using assms(3) by (simp add: update_def Let_def p)
  have 4: "\<not> game_ended ?g4" "game_started ?g4" "score ?g4 = score (move_obstacles g)"
    "best_score ?g4 = best_score g"
    using flags by (simp_all add: loop_pipes_unchanged move_obstacles_unchanged)
  from initiate_game_over_screen_quiet[OF assms(4), of A ?g4] 4(1) obtain v where
    v: "initiate_game_over_screen A evs ?g4 =
          (let g1 = game_over_entry ?g4
           in g1\<lparr>game_ended := True, player := (player g1)\<lparr>disable_jumping := True\<rparr>,
                 scoreboard_rect_y := scoreboard_step A (scoreboard_rect_y g1),
                 restart_game_button_pressed := v\<rparr>)"
    by auto
  show ?thesis
    unfolding u v using 4 by (simp add: Let_def game_over_entry_def max_def)
qed

lemma frame_game_over_quiet:
  fixes a :: App
  assumes "game_ended (game a)" and "game_started (game a)"
    and "no_restart_release (posted a @ events i)"
  shows "overlay (game (frame R A i a))
           = (let g = game a
              in (True, True, score g, best_score g, final_score_txt g, best_score_txt g,
                  scoreboard_step A (scoreboard_rect_y g)))"
proof -
  let ?evs = "posted a @ events i"
  let ?g1 = "game (fold (handle_event R A) ?evs (a\<lparr>posted := []\<rparr>))"
  have o: "overlay ?g1 = overlay (game a)" by (simp add: handle_events_overlay)
  then have "game_ended ?g1" "game_started ?g1" using assms(1,2) by (simp_all add: overlay_def)
  from update_game_over_quiet[OF this assms(3), of R A i] obtain p v where
    "update R A i ?evs ?g1 =
           ?g1\<lparr>game_ended := True, player := p,
             scoreboard_rect_y := scoreboard_step A (scoreboard_rect_y ?g1),
             restart_game_button_pressed := v\<rparr>" by blast
  then have "overlay (game (frame R A i a))
      = (True, True, score ?g1, best_score ?g1, final_score_txt ?g1, best_score_txt ?g1,
                  scoreboard_step A (scoreboard_rect_y ?g1))"
    using \<open>game_started ?g1\<close> by (simp add: frame_def Let_def overlay_def)
  then show ?thesis using o by (simp add: overlay_def Let_def)
qed

lemma frame_collision_quiet:
  fixes a :: App
  assumes "game_started (game a)" and "\<not> game_ended (game a)" and "collides i"
    and "no_restart_release (posted a @ events i)"
  shows "let g' = game (frame R A i a)
         in game_ended g' \<and> game_started g'
            \<and> best_score g' = max (best_score (game a)) (score g')
            \<and> final_score_txt g' = score g'
            \<and> best_score_txt g' = best_score g'
            \<and> scoreboard_rect_y g' = scoreboard_step A SCREEN_HEIGHT"
proof -
  let ?evs = "posted a @ events i"
  let ?g1 = "game (fold (handle_event R A) ?evs (a\<lparr>posted := []\<rparr>))"
  have o: "overlay ?g1 = overlay (game a)" by (simp add: handle_events_overlay)
  then have 1: "game_started ?g1" "\<not> game_ended ?g1" "best_score ?g1 = best_score (game a)"
    using assms(1,2) by (simp_all add: overlay_def)
  from update_collision_quiet[OF 1(1,2) assms(3,4), of R A] 1(3)
  show ?thesis by (simp add: frame_def Let_def)
qed

lemma run_game_over_quiet:
  fixes a :: App
  assumes "game_ended (game a)" and "game_started (game a)"
    and "no_restart_release (posted a)"
    and "list_all (\<lambda>j. no_restart_release (events j)) js"
  shows "let g = game a; g' = game (run R A js a)
         in game_ended g' \<and> game_started g' \<and> score g' = score g
            \<and> best_score g' = best_score g
            \<and> final_score_txt g' = final_score_txt g \<and> best_score_txt g' = best_score_txt g
            \<and> scoreboard_rect_y g' \<le> scoreboard_rect_y g
            \<and> no_restart_release (posted (run R A js a))"
  using assms
proof (induction js arbitrary: a)
  case Nil
  then show ?case by (simp add: Let_def)
next
  case (Cons j js)
  show ?case
  proof (cases "running a")
    case False
    then show ?thesis using Cons.prems by (simp add: Let_def)
  next
    case True
    have q: "no_restart_release (posted a @ events j)"
      using Cons.prems(3,4) by (simp add: no_restart_release_def)
    note f = frame_game_over_quiet[OF Cons.prems(1,2) q, of R A]
    have js: "list_all (\<lambda>j. no_restart_release (events j)) js" using Cons.prems(4) by simp
    have e: "game_ended (game (frame R A j a))" "game_started (game (frame R A j a))"
      using f by (simp_all add: overlay_def Let_def)
    from Cons.IH[OF e posted_frame_quiet js] f True
    show ?thesis
      by (simp add: Let_def overlay_def scoreboard_step_def split: if_splits)
  qed
qed

lemma best_score_update: "b \<le> best_score g \<Longrightarrow> b \<le> best_score (update R A i evs g)"
proof (rule update_invariant[where P = "\<lambda>g. b \<le> best_score g"])
  fix g :: Game assume g: "b \<le> best_score g"
  show "b \<le> best_score (initiate_game_over_screen A evs g)"
  proof (rule initiate_game_over_screen_invariant[where P = "\<lambda>g. b \<le> best_score g"])
    fix g :: Game assume "b \<le> best_score g"
    then show "b \<le> best_score (Button_update restart_game_button evs g)"
      by (rule Button_update_invariant[where P = "\<lambda>g. b \<le> best_score g", rotated -1])
         (simp_all add: restart_game_def)
  qed (use g in \<open>simp_all add: game_over_entry_def Let_def\<close>)
  show "b \<le> best_score (Button_update starting_screen_button evs g)"
    using g by (rule Button_update_invariant[where P = "\<lambda>g. b \<le> best_score g", rotated -1])
       (simp_all add: initiate_game_def)
qed (simp_all add: move_obstacles_unchanged loop_pipes_unchanged idle_animation_def Let_def)

lemma best_score_run:
  fixes b :: App
  shows "best_score (game b) \<le> best_score (game (run R A ks b))"
proof (rule run_invariant[where P = "\<lambda>g. best_score (game b) \<le> best_score g"])
  fix i and a :: App
  assume "best_score (game b) \<le> best_score (game a)"
  then show "best_score (game b) \<le> best_score (game (frame R A i a))"
    by (rule frame_invariant[where P = "\<lambda>g. best_score (game b) \<le> best_score g", rotated -1])
       (simp_all add: add_pipes_unchanged best_score_update)
qed simp

text \<open>
  C6. From a playing state, a frame in which the avatar collides (and the restart
  button is not released) ends in \<open>GameOver\<close>, with \<open>best_score\<close> the maximum of the
  old best and the score, the scoreboard texts rendered from them and the scoreboard
  placed at the bottom of the screen and moved one step. In the frames that follow,
  as long as the restart button is not released, the game stays over, the best
  score and the texts stay as they are, and the scoreboard continues its animation
  from where it is: the entry block does not run again. In every run whatsoever
  \<open>best_score\<close> never decreases.
\<close>

theorem game_over_entry_once:
  fixes a b :: App
  assumes "game_started (game a)" and "\<not> game_ended (game a)" and "collides i"
    and "no_restart_release (posted a @ events i)"
    and "list_all (\<lambda>j. no_restart_release (events j)) js"
    and "no_restart_release (events k)"
  shows "let a1 = frame R A i a; a2 = run R A js a1; a3 = frame R A k a2
         in game_ended (game a1)
            \<and> best_score (game a1) = max (best_score (game a)) (score (game a1))
            \<and> final_score_txt (game a1) = score (game a1)
            \<and> best_score_txt (game a1) = best_score (game a1)
            \<and> scoreboard_rect_y (game a1) = scoreboard_step A SCREEN_HEIGHT
            \<and> game_ended (game a2) \<and> game_ended (game a3)
            \<and> best_score (game a2) = best_score (game a1)
            \<and> best_score (game a3) = best_score (game a1)
            \<and> final_score_txt (game a3) = final_score_txt (game a1)
            \<and> best_score_txt (game a3) = best_score_txt (game a1)
            \<and> scoreboard_rect_y (game a3) = scoreboard_step A (scoreboard_rect_y (game a2))
            \<and> scoreboard_rect_y (game a2) \<le> scoreboard_rect_y (game a1)
            \<and> best_score (game b) \<le> best_score (game (run R A ks b))"
proof -
  let ?a1 = "frame R A i a"
  let ?a2 = "run R A js ?a1"
  note 1 = frame_collision_quiet[OF assms(1-4), of R A, unfolded Let_def]
  from 1 have e1: "game_ended (game ?a1)" "game_started (game ?a1)" by simp_all
  note 2 = run_game_over_quiet[OF e1 posted_frame_quiet assms(5), of R, unfolded Let_def]
  from 2 have e2: "game_ended (game ?a2)" "game_started (game ?a2)"
    and q2: "no_restart_release (posted ?a2)" by simp_all
  have q: "no_restart_release (posted ?a2 @ events k)"
    using q2 assms(6) by (simp add: no_restart_release_def)
  note 3 = frame_game_over_quiet[OF e2 q, of R A, unfolded Let_def overlay_def]
  show ?thesis using 1 2 3 best_score_run[of b R A ks] by (simp add: Let_def)
qed

lemma playing_app_eval:
  "game_started (game playing_app)" "\<not> game_ended (game playing_app)"
  "posted playing_app = []" "best_score (game playing_app) = 0"
  unfolding playing_app_def by code_simp+

lemma crash_frame_quiet:
  "collides crash_frame" "no_restart_release (posted playing_app @ events crash_frame)"
  unfolding playing_app_eval unfolding crash_frame_def by code_simp+

theorem game_over_entry_once_witness:
  "game_started (game playing_app) \<and> \<not> game_ended (game playing_app) \<and> collides crash_frame
   \<and> no_restart_release (posted playing_app @ events crash_frame)
   \<and> list_all (\<lambda>j. no_restart_release (events j))
         [first_frame 24 [MOUSEBUTTONDOWN 1 False False], first_frame 32 [MOUSEBUTTONUP False False]]
   \<and> no_restart_release (events (first_frame 40 []))
   \<and> (let a1 = frame example_random example_assets crash_frame playing_app;
           a2 = run example_random example_assets
                  [first_frame 24 [MOUSEBUTTONDOWN 1 False False],
                   first_frame 32 [MOUSEBUTTONUP False False]] a1;
           a3 = frame example_random example_assets (first_frame 40 []) a2
       in game_ended (game a1) \<and> best_score (game a1) = max 0 (score (game a1))
          \<and> game_ended (game a3) \<and> best_score (game a3) = best_score (game a1)
          \<and> scoreboard_rect_y (game a3) = scoreboard_step example_assets (scoreboard_rect_y (game a2)))"
proof -
  have js: "list_all (\<lambda>j. no_restart_release (events j))
         [first_frame 24 [MOUSEBUTTONDOWN 1 False False], first_frame 32 [MOUSEBUTTONUP False False]]"
    by code_simp
  have k: "no_restart_release (events (first_frame 40 []))" by code_simp
  from game_over_entry_once[OF playing_app_eval(1,2) crash_frame_quiet js k,
      where R = example_random and A = example_assets] playing_app_eval crash_frame_quiet js k
  show ?thesis by (simp add: Let_def)
qed

section \<open>The start screen\<close>

lemma idle_ok_iff:
  "idle_ok g \<longleftrightarrow>
     350 \<le> rect_y (rect (player g)) \<and> rect_y (rect (player g)) \<le> 450
     \<and> (rect_y (rect (player g)) = 450 \<longrightarrow> player_idle_vel g = - 1)
     \<and> (rect_y (rect (player g)) = 350 \<longrightarrow> player_idle_vel g = 1)"
  by (auto simp: idle_ok_def Let_def player_starting_pos_def player_max_idle_pos_y_def
      player_min_idle_pos_y_def)

lemma move_obstacles_no_pipes:
  "pipes g = [] \<Longrightarrow> move_obstacles g = g\<lparr>ground := GroundObstacle_move (game_speed g) (ground g)\<rparr>"
  by (simp add: move_obstacles_def Let_def)

lemma start_inv_move_obstacles: "start_inv g \<Longrightarrow> \<not> game_ended g \<Longrightarrow> start_inv (move_obstacles g)"
  by (cases "game_started g")
     (simp_all add: start_inv_def move_obstacles_unchanged move_obstacles_no_pipes idle_ok_iff)

lemma start_inv_restart: "\<bar>player_idle_vel g\<bar> = 1 \<Longrightarrow> start_inv (restart_game g)"
  by (simp add: start_inv_def restart_game_def reset_def idle_ok_iff player_starting_pos_def)

lemma start_inv_game_over:
  assumes "start_inv g" and "game_started g \<or> game_ended g"
  shows "start_inv (initiate_game_over_screen A evs g)"
proof -
  from assms have s: "game_started g" by (auto simp: start_inv_def)
  let ?Q = "\<lambda>g. start_inv g \<and> (game_started g \<or> \<not> game_ended g)"
  let ?g1 = "if \<not> game_ended g then game_over_entry g else g"
  let ?g2 = "?g1\<lparr>game_ended := True, player := (player ?g1)\<lparr>disable_jumping := True\<rparr>\<rparr>"
  let ?g3 = "if scoreboard_rect_y ?g2 + snd (scoreboard_size A) div 2 > 450
                then ?g2\<lparr>scoreboard_rect_y := scoreboard_rect_y ?g2 - 20\<rparr> else ?g2"
  have 3: "?Q ?g3"
    using assms(1) s by (simp add: start_inv_def game_over_entry_def Let_def)
  have "?Q (Button_update restart_game_button evs ?g3)"
    using 3
  proof (rule Button_update_invariant[where P = ?Q, rotated -1])
    fix g :: Game assume "?Q g"
    then show "?Q (action restart_game_button g)"
      using start_inv_restart[of g] by (simp add: start_inv_def restart_game_def)
  next
    fix v and g :: Game assume "?Q g"
    then show "?Q (set_pressed restart_game_button v g)"
      by (simp add: start_inv_def idle_ok_iff)
  qed
  then show ?thesis by (simp add: initiate_game_over_screen_def Let_def)
qed

lemma idle_animation_unchanged:
  "game_started (idle_animation g) = game_started g"
  "game_ended (idle_animation g) = game_ended g"
  "pipes (idle_animation g) = pipes g"
  "ground (idle_animation g) = ground g"
  "distance_from_last_pipe (idle_animation g) = distance_from_last_pipe g"
  by (simp_all add: idle_animation_def Let_def)

lemma start_inv_idle_animation: "start_inv g \<Longrightarrow> start_inv (idle_animation g)"
  unfolding start_inv_def idle_animation_unchanged idle_ok_iff
  by (auto simp: idle_animation_def Let_def move_ip_def player_starting_pos_def
      player_max_idle_pos_y_def player_min_idle_pos_y_def)

lemma start_inv_update: "start_inv g \<Longrightarrow> start_inv (update R A i evs g)"
proof (rule update_invariant[where P = start_inv])
  fix g :: Game assume g: "start_inv g"
  show "start_inv (Button_update starting_screen_button evs g)"
    using g by (rule Button_update_invariant[where P = start_inv, rotated -1])
       (simp_all add: start_inv_def initiate_game_def idle_ok_iff)
  show "start_inv (idle_animation g)"
    using g by (rule start_inv_idle_animation)
  { assume "game_started g"
    then show "start_inv (loop_pipes R A g)"
      using g by (simp add: start_inv_def loop_pipes_unchanged)
    show "start_inv (g\<lparr>distance_from_last_pipe := distance_from_last_pipe g + game_speed g\<rparr>)"
      using g \<open>game_started g\<close> by (simp add: start_inv_def)
    fix p show "start_inv (g\<lparr>player := p\<rparr>)"
      using g \<open>game_started g\<close> by (simp add: start_inv_def) }
qed (simp_all add: start_inv_move_obstacles start_inv_game_over)

lemma start_inv_frame: "start_inv (game (a::App)) \<Longrightarrow> start_inv (game (frame R A i a))"
  by (rule frame_invariant[where P = start_inv])
     (simp_all add: start_inv_update, simp_all add: start_inv_def add_pipes_unchanged idle_ok_iff)

lemma start_inv_init: "start_inv (game (App_init A))"
  by (simp add: App_init_def setup_game_def GameManager_init_def Player_init_def start_inv_def
      idle_ok_iff player_starting_pos_def)

lemma start_inv_run: "start_inv (game (run R A ins (App_init A)))"
  by (rule run_invariant[where P = start_inv]) (simp_all add: start_inv_frame start_inv_init)

lemma start_button_update:
  assumes "\<not> game_started g" and "\<not> game_ended g"
  shows "let g' = Button_update starting_screen_button evs g
         in player g' = player g \<and> pipes g' = pipes g \<and> ground g' = ground g
            \<and> player_idle_vel g' = player_idle_vel g \<and> \<not> game_ended g'
            \<and> (game_started g' \<longrightarrow> distance_from_last_pipe g' = 0)"
proof -
  let ?P = "\<lambda>g'. player g' = player g \<and> pipes g' = pipes g \<and> ground g' = ground g
            \<and> player_idle_vel g' = player_idle_vel g \<and> \<not> game_ended g'
            \<and> (game_started g' \<longrightarrow> distance_from_last_pipe g' = 0)"
  have "?P (Button_update starting_screen_button evs g)"
    by (rule Button_update_invariant[where P = ?P])
       (use assms in \<open>simp_all add: initiate_game_def\<close>)
  then show ?thesis by (simp add: Let_def)
qed

lemma update_start_screen:
  assumes "\<not> game_started g" and "\<not> game_ended g" and "pipes g = []"
  shows "update R A i evs g =
           idle_animation (Button_update starting_screen_button evs
             (g\<lparr>ground := GroundObstacle_move (game_speed g) (ground g)\<rparr>))"
proof -
  have "update_head A i evs g = g\<lparr>ground := GroundObstacle_move (game_speed g) (ground g)\<rparr>"
    using assms by (simp add: update_head_def Let_def move_obstacles_no_pipes)
  then show ?thesis using assms(1) by (simp add: update_def Let_def)
qed

lemma idle_animation_step:
  "let g' = idle_animation g; y' = rect_y (rect (player g')) in
     y' = rect_y (rect (player g)) + player_idle_vel g
     \<and> time (player g') = time (player g) \<and> tick_started (player g') = tick_started (player g)
     \<and> rotation (player g') = rotation (player g)
     \<and> disable_jumping (player g') = disable_jumping (player g)
     \<and> rect_x (rect (player g')) = rect_x (rect (player g))
     \<and> player_idle_vel g' =
          (if y' \<ge> snd player_starting_pos + player_max_idle_pos_y then - player_idle_vel g
           else if y' \<le> snd player_starting_pos - player_min_idle_pos_y then \<bar>player_idle_vel g\<bar>
           else player_idle_vel g)"
  by (simp add: idle_animation_def Let_def move_ip_def)

lemma idle_arith:
  fixes y v y' v' :: int
  assumes "350 \<le> y" "y \<le> 450" "y = 450 \<longrightarrow> v = - 1" "y = 350 \<longrightarrow> v = 1" "\<bar>v\<bar> = 1"
    and "y' = y + v"
    and "v' = (if y' \<ge> 450 then - v else if y' \<le> 350 then \<bar>v\<bar> else v)"
  shows "350 \<le> y' \<and> y' \<le> 450
         \<and> (if y' = 450 then v = 1 \<and> v' = - 1
             else if y' = 350 then v = - 1 \<and> v' = 1
             else v' = v)"
proof -
  from assms(5) have "v = 1 \<or> v = - 1" by linarith
  then show ?thesis using assms(1-4,6,7) by auto
qed

text \<open>
  C7 (amended). In a frame that begins on the start screen, after any run: there is
  no pipe before or after the frame (none moves, none spawns), while the ground band
  scrolls by \<open>game_speed\<close> as in play; the avatar ignores the events (fall time,
  clock, rotation and \<open>x\<close> are unchanged) and moves by \<open>player_idle_vel\<close>, staying
  between \<open>400 - 50\<close> and \<open>400 + 50\<close> and reversing its direction at each of the two
  bounds; and when the start button fires, the game is started, not ended, with the
  distance accumulator 0.
\<close>

theorem start_screen_tick:
  assumes "\<not> game_started (game (run R A ins (App_init A)))"
  shows "let g = game (run R A ins (App_init A));
             g' = game (frame R A i (run R A ins (App_init A)));
             y' = rect_y (rect (player g'))
         in \<not> game_ended g \<and> pipes g = [] \<and> pipes g' = []
            \<and> ground g' = GroundObstacle_move (game_speed g) (ground g)
            \<and> time (player g') = time (player g)
            \<and> tick_started (player g') = tick_started (player g)
            \<and> rotation (player g') = rotation (player g)
            \<and> rect_x (rect (player g')) = rect_x (rect (player g))
            \<and> y' = rect_y (rect (player g)) + player_idle_vel g
            \<and> (350 \<le> y' \<and> y' \<le> 450
                \<and> (if y' = 450 then player_idle_vel g = 1 \<and> player_idle_vel g' = - 1
                    else if y' = 350 then player_idle_vel g = - 1 \<and> player_idle_vel g' = 1
                    else player_idle_vel g' = player_idle_vel g))
            \<and> \<not> game_ended g'
            \<and> (if game_started g' then distance_from_last_pipe g' = 0 else True)
            \<and> game_started (action starting_screen_button g)
            \<and> distance_from_last_pipe (action starting_screen_button g) = 0"
proof -
  let ?a = "run R A ins (App_init A)"
  let ?g = "game ?a"
  let ?evs = "posted ?a @ events i"
  let ?gm = "?g\<lparr>ground := GroundObstacle_move (game_speed ?g) (ground ?g)\<rparr>"
  let ?b = "Button_update starting_screen_button ?evs ?gm"
  let ?g' = "game (frame R A i ?a)"
  have inv: "start_inv ?g" by (rule start_inv_run)
  with assms have g: "pipes ?g = []" "\<not> game_ended ?g" "idle_ok ?g" "\<bar>player_idle_vel ?g\<bar> = 1"
    by (simp_all add: start_inv_def)
  have h: "game (fold (handle_event R A) ?evs (?a\<lparr>posted := []\<rparr>)) = ?g"
    using assms by (simp add: handle_events_not_started)
  have f: "?g' = (idle_animation ?b)\<lparr>game_speed := new_game_speed (fps i)\<rparr>"
    using update_start_screen[OF assms g(2,1), of R A i ?evs]
    by (simp add: frame_def Let_def h del: fold_append)
  have b: "player ?b = player ?g" "pipes ?b = []"
    "ground ?b = GroundObstacle_move (game_speed ?g) (ground ?g)"
    "player_idle_vel ?b = player_idle_vel ?g" "\<not> game_ended ?b"
    "game_started ?b \<longrightarrow> distance_from_last_pipe ?b = 0"
    using start_button_update[of ?gm ?evs] assms g(1,2) by (simp_all add: Let_def)
  note st = idle_animation_step[of ?b, unfolded Let_def b player_starting_pos_def
      player_max_idle_pos_y_def player_min_idle_pos_y_def]
  have p: "player ?g' = player (idle_animation ?b)" "player_idle_vel ?g' = player_idle_vel (idle_animation ?b)"
    "pipes ?g' = []" "ground ?g' = GroundObstacle_move (game_speed ?g) (ground ?g)"
    "\<not> game_ended ?g'" "game_started ?g' = game_started ?b"
    "distance_from_last_pipe ?g' = distance_from_last_pipe ?b"
    unfolding f using b by (simp_all add: idle_animation_unchanged)
  have osc: "350 \<le> rect_y (rect (player ?g')) \<and> rect_y (rect (player ?g')) \<le> 450
         \<and> (if rect_y (rect (player ?g')) = 450 then player_idle_vel ?g = 1 \<and> player_idle_vel ?g' = - 1
             else if rect_y (rect (player ?g')) = 350 then player_idle_vel ?g = - 1 \<and> player_idle_vel ?g' = 1
             else player_idle_vel ?g' = player_idle_vel ?g)"
    unfolding p
  proof (rule idle_arith[where y = "rect_y (rect (player ?g))"])
    show "rect_y (rect (player (idle_animation ?b))) = rect_y (rect (player ?g)) + player_idle_vel ?g"
      using st by simp
    show "player_idle_vel (idle_animation ?b) =
      (if 450 \<le> rect_y (rect (player (idle_animation ?b))) then - player_idle_vel ?g
       else if rect_y (rect (player (idle_animation ?b))) \<le> 350 then \<bar>player_idle_vel ?g\<bar>
       else player_idle_vel ?g)"
      using st by simp
  qed (use g(3,4) in \<open>simp_all add: idle_ok_iff\<close>)
  have same: "time (player ?g') = time (player ?g)"
    "tick_started (player ?g') = tick_started (player ?g)"
    "rotation (player ?g') = rotation (player ?g)"
    "rect_x (rect (player ?g')) = rect_x (rect (player ?g))"
    "rect_y (rect (player ?g')) = rect_y (rect (player ?g)) + player_idle_vel ?g"
    unfolding p using st by simp_all
  have start: "if game_started ?g' then distance_from_last_pipe ?g' = 0 else True"
    using b(6) by (simp add: p)
  have act: "game_started (action starting_screen_button ?g)"
    "distance_from_last_pipe (action starting_screen_button ?g) = 0"
    by (simp_all add: initiate_game_def)
  show ?thesis
    unfolding Let_def
    using g(1,2) p(3,4,5) same osc start act by blast
qed

theorem start_screen_tick_witness:
  "\<not> game_started (game (run example_random example_assets [] (App_init example_assets)))
   \<and> (let g' = game (frame example_random example_assets (example_frame 0 start_click)
                     (run example_random example_assets [] (App_init example_assets)))
       in pipes g' = [] \<and> rect_y (rect (player g')) = 401 \<and> \<not> game_ended g'
          \<and> game_started g' \<and> distance_from_last_pipe g' = 0)"
proof -
  let ?a = "run example_random example_assets [] (App_init example_assets)"
  let ?g' = "game (frame example_random example_assets (example_frame 0 start_click) ?a)"
  have h: "\<not> game_started (game ?a)"
    by code_simp
  have s: "game_started ?g'" "rect_y (rect (player (game ?a))) = 400"
    "player_idle_vel (game ?a) = 1"
    by code_simp+
  note c = start_screen_tick[OF h, of "example_frame 0 start_click", unfolded Let_def]
  from c have 1: "pipes ?g' = []" by blast
  from c have 2: "rect_y (rect (player ?g')) = rect_y (rect (player (game ?a))) + player_idle_vel (game ?a)"
    by blast
  from c have 3: "\<not> game_ended ?g'" by blast
  from c have "if game_started ?g' then distance_from_last_pipe ?g' = 0 else True" by blast
  with s(1) have 4: "distance_from_last_pipe ?g' = 0" by (simp only: if_True)
  from 2 have 5: "rect_y (rect (player ?g')) = 401" by (simp only: s)
  show ?thesis unfolding Let_def using h 1 5 3 s(1) 4 by blast
qed

theorem start_screen_ground_counterexample:
  "\<not> game_started (game (App_init example_assets))
   \<and> \<not> game_started (game (frame example_random example_assets (example_frame 0 []) (App_init example_assets)))
   \<and> rect_x (moving_image_rect (ground (game (App_init example_assets)))) = 0
   \<and> rect_x (moving_image_rect (ground (game (frame example_random example_assets
         (example_frame 0 []) (App_init example_assets))))) = - 2"
  by code_simp

section \<open>The event posted by the f key\<close>

text \<open>
  C10. A \<open>KEYDOWN\<close> of the \<open>f\<close> key posts an \<open>ADD_PIPE\<close> event, which the next frame
  fetches. An \<open>ADD_PIPE\<close> event handled while \<open>game_started\<close> holds, in play or after
  the game is over, appends a new pair at once; \<open>pipe_spawning_dist\<close> is not consulted
  and \<open>distance_from_last_pipe\<close> keeps its value. The events of a frame add two pipes
  for each \<open>ADD_PIPE\<close> among them.
\<close>

theorem add_pipe_event:
  fixes a :: App
  shows "posted (handle_event R A (KEYDOWN K_f) a) = posted a @ [ADD_PIPE]
     \<and> posted (frame R A i a)
         = map (\<lambda>e. ADD_PIPE) (filter (\<lambda>e. e = KEYDOWN K_f) (posted a @ events i))
     \<and> (game_started (game a) \<longrightarrow>
          (let h = top_pipe_height R (game a); n = previous_pipe_serial (game a);
               a' = handle_event R A ADD_PIPE a
           in pipes (game a') = pipes (game a) @ [new_top_pipe A h n, new_bottom_pipe A h n]
              \<and> distance_from_last_pipe (game a') = distance_from_last_pipe (game a)
              \<and> game_ended (game a') = game_ended (game a)))
     \<and> (game_started (game a) \<longrightarrow>
          (let evs = posted a @ events i;
               a1 = fold (handle_event R A) evs (a\<lparr>posted := []\<rparr>)
           in length (pipes (game a1)) = length (pipes (game a)) + 2 * count_list evs ADD_PIPE
              \<and> distance_from_last_pipe (game a1) = distance_from_last_pipe (game a)
              \<and> game_ended (game a1) = game_ended (game a)))"
proof -
  have 1: "posted (handle_event R A (KEYDOWN K_f) a) = posted a @ [ADD_PIPE]"
    by (simp add: posted_handle_event)
  have 2: "posted (frame R A i a)
         = map (\<lambda>e. ADD_PIPE) (filter (\<lambda>e. e = KEYDOWN K_f) (posted a @ events i))"
    by (simp add: frame_def Let_def handle_events_posted)
  have 3: "game_started (game a) \<longrightarrow>
          (let h = top_pipe_height R (game a); n = previous_pipe_serial (game a);
               a' = handle_event R A ADD_PIPE a
           in pipes (game a') = pipes (game a) @ [new_top_pipe A h n, new_bottom_pipe A h n]
              \<and> distance_from_last_pipe (game a') = distance_from_last_pipe (game a)
              \<and> game_ended (game a') = game_ended (game a))"
    by (simp add: game_handle_event add_pipes_def Let_def)
  have 4: "game_started (game a) \<longrightarrow>
          (let evs = posted a @ events i;
               a1 = fold (handle_event R A) evs (a\<lparr>posted := []\<rparr>)
           in length (pipes (game a1)) = length (pipes (game a)) + 2 * count_list evs ADD_PIPE
              \<and> distance_from_last_pipe (game a1) = distance_from_last_pipe (game a)
              \<and> game_ended (game a1) = game_ended (game a))"
    using handle_events_spawn[of "a\<lparr>posted := []\<rparr>" R A "posted a @ events i"]
    by (simp add: Let_def)
  from 1 2 3 4 show ?thesis by blast
qed

theorem add_pipe_event_witness:
  "game_started (game game_over_app) \<and> game_ended (game game_over_app)
   \<and> posted game_over_app = [ADD_PIPE]
   \<and> (let evs = posted game_over_app @ events (first_frame 24 []);
           a1 = fold (handle_event example_random example_assets) evs (game_over_app\<lparr>posted := []\<rparr>)
       in length (pipes (game a1)) = length (pipes (game game_over_app)) + 2
          \<and> distance_from_last_pipe (game a1) = distance_from_last_pipe (game game_over_app)
          \<and> game_ended (game a1))"
proof -
  have e: "game_started (game game_over_app)" "game_ended (game game_over_app)"
    "posted game_over_app = [ADD_PIPE]"
    unfolding game_over_app_def playing_app_def crash_frame_def by code_simp+
  have ev: "events (first_frame 24 []) = []" by code_simp
  from add_pipe_event[of example_random example_assets game_over_app "first_frame 24 []"] e
  show ?thesis by (simp add: Let_def ev)
qed

end
